theory Spec2Isabelle
  imports Main "HOL-Library.Multiset"
begin

section \<open>Tab and pane orchestration of TerminalPage\<close>

text \<open>
  The development embeds the tab bookkeeping of \<^verbatim>\<open>TerminalPage\<close> (the page that owns
  the display-order vector \<^verbatim>\<open>_tabs\<close>, the most-recently-used vector \<^verbatim>\<open>_mruTabs\<close>, the
  TabView control and the command palette that serves as tab switcher).  Every member
  function keeps its name without the leading underscore.

  A tab is a reference-counted object; two vectors may hold the same tab.  Tabs are
  therefore identities (\<open>tab\<close>), and their mutable fields live in a store \<open>objs\<close>.
  The TabViewItem of a tab is identified with the tab.
\<close>

type_synonym tab = nat
type_synonym guid = nat

datatype StartupState = NotInitialized | InStartup | Initialized
datatype TabSwitcherMode = MostRecentlyUsed | InOrder | Disabled
datatype FocusState = Unfocused | Programmatic
datatype Visibility = Visible | Collapsed
datatype ContentDialogResult = NoResult | Primary | Secondary
datatype CollectionChange = ItemInserted | ItemRemoved
datatype TabKind = TerminalTabKind | SettingsTabKind
datatype SplitState = SplitNone | Automatic | Vertical | Horizontal
datatype SplitType = Manual | Duplicate

subsection \<open>Exceptions and faults\<close>

text \<open>
  \<open>OutOfBounds\<close> is the exception of \<^verbatim>\<open>IVector::GetAt/RemoveAt/InsertAt\<close> on a bad index,
  \<open>InvalidArg\<close> the one of a failed profile lookup.  \<open>DivideByZero\<close> is the integer
  division fault and \<open>Terminate\<close> the abort after an exception leaves a \<^verbatim>\<open>noexcept\<close>
  function or a fire-and-forget coroutine; no handler catches these two.
  A result carries the page as it is when the operation ends or is left.
  \<open>CATCH_LOG\<close> ends a \<^verbatim>\<open>try\<close> block, \<open>unhandled\<close> is the end of a \<^verbatim>\<open>noexcept\<close> function
  or fire-and-forget coroutine, and \<open>notAwaited\<close> is the call of a coroutine that returns
  an \<^verbatim>\<open>IAsyncAction\<close> which the caller drops: the action keeps the exception.
\<close>

datatype error = OutOfBounds | InvalidArg | DivideByZero | Terminate

datatype 's result = Done 's | Threw error 's

fun catchable :: "error \<Rightarrow> bool" where
  "catchable OutOfBounds = True"
| "catchable InvalidArg = True"
| "catchable DivideByZero = False"
| "catchable Terminate = False"

fun thenDo :: "'s result \<Rightarrow> ('s \<Rightarrow> 's result) \<Rightarrow> 's result" where
  "thenDo (Done s) f = f s"
| "thenDo (Threw e s) f = Threw e s"

fun CATCH_LOG :: "'s result \<Rightarrow> 's result" where
  "CATCH_LOG (Done s) = Done s"
| "CATCH_LOG (Threw e s) = (if catchable e then Done s else Threw e s)"

fun unhandled :: "'s result \<Rightarrow> 's result" where
  "unhandled (Done s) = Done s"
| "unhandled (Threw e s) = Threw Terminate s"

fun notAwaited :: "'s result \<Rightarrow> 's result" where
  "notAwaited (Done s) = Done s"
| "notAwaited (Threw e s) = (if catchable e then Done s else Threw e s)"

fun isDone :: "'s result \<Rightarrow> bool" where
  "isDone (Done s) = True"
| "isDone (Threw e s) = False"

fun stateOf :: "'s result \<Rightarrow> 's" where
  "stateOf (Done s) = s"
| "stateOf (Threw e s) = s"

subsection \<open>Vectors\<close>

text \<open>
  \<^verbatim>\<open>IVector::IndexOf\<close> finds the first position of an element.  \<open>RemoveAt\<close> and
  \<open>InsertAt\<close> are the in-range behaviour; a caller whose index is not known to be in
  range checks it and throws \<open>OutOfBounds\<close>.
\<close>

fun IndexOf :: "'a list \<Rightarrow> 'a \<Rightarrow> nat option" where
  "IndexOf [] x = None"
| "IndexOf (y # ys) x = (if y = x then Some 0 else map_option Suc (IndexOf ys x))"

definition RemoveAt :: "nat \<Rightarrow> 'a list \<Rightarrow> 'a list" where
  "RemoveAt i xs = take i xs @ drop (Suc i) xs"

definition InsertAt :: "nat \<Rightarrow> 'a \<Rightarrow> 'a list \<Rightarrow> 'a list" where
  "InsertAt i x xs = take i xs @ x # drop i xs"

subsection \<open>32-bit integers\<close>

text \<open>
  Indices are \<^verbatim>\<open>uint32_t\<close>; two places convert to \<^verbatim>\<open>int32_t\<close>.  The conversions are written
  out on unbounded integers.  \<open>clamp\<close> is \<^verbatim>\<open>std::clamp\<close>.
\<close>

definition to_uint32 :: "int \<Rightarrow> int" where
  "to_uint32 x = x mod 2 ^ 32"

definition to_int32 :: "int \<Rightarrow> int" where
  "to_int32 x = (x + 2 ^ 31) mod 2 ^ 32 - 2 ^ 31"

definition clamp :: "int \<Rightarrow> int \<Rightarrow> int \<Rightarrow> int" where
  "clamp v lo hi = (if v < lo then lo else if hi < v then hi else v)"

subsection \<open>The page\<close>

text \<open>
  \<open>'p\<close> is the pane tree of a terminal tab together with whatever else the classes
  \<^verbatim>\<open>TerminalTab\<close> and \<^verbatim>\<open>Pane\<close> keep; their member functions are parameters of the
  operations that call them.
\<close>

record 'p tabObject =
  kind :: TabKind
  readOnly :: bool
  focusState :: FocusState
  zoomed :: bool
  focusedProfile :: "guid option"
  controlReadOnly :: bool
  panes :: 'p

text \<open>
  \<open>tabItems\<close> and \<open>selectedItem\<close> are \<^verbatim>\<open>_tabView.TabItems()\<close> and
  \<^verbatim>\<open>_tabView.SelectedItem()\<close>; \<open>tabContent\<close> is \<^verbatim>\<open>_tabContent.Children()\<close>;
  \<open>paletteVisibility\<close> is \<^verbatim>\<open>CommandPalette().Visibility()\<close>; \<open>flyoutOpen\<close> is
  \<^verbatim>\<open>_newTabButton.Flyout().IsOpen()\<close>; \<open>dispatcherQueue\<close> holds the tab indices of the
  \<^verbatim>\<open>_SetFocusedTabIndex\<close> coroutines that wait behind \<^verbatim>\<open>resume_foreground\<close>;
  \<open>lastTabClosed\<close> records that \<^verbatim>\<open>_LastTabClosedHandlers\<close> was raised;
  \<open>tabSwitcherMode\<close> and \<open>profiles\<close> are what \<^verbatim>\<open>_settings\<close> answers.
\<close>

record 'p page =
  tabs :: "tab list"
  mruTabs :: "tab list"
  tabItems :: "tab list"
  selectedItem :: "tab option"
  objs :: "tab \<Rightarrow> 'p tabObject"
  tabContent :: "tab list"
  settingsTab :: "tab option"
  rearranging :: bool
  rearrangeFrom :: "nat option"
  rearrangeTo :: "nat option"
  removing :: bool
  startupState :: StartupState
  paletteVisibility :: Visibility
  flyoutOpen :: bool
  dispatcherQueue :: "nat list"
  lastTabClosed :: bool
  tabSwitcherMode :: TabSwitcherMode
  profiles :: "guid list"

definition updTab :: "tab \<Rightarrow> ('p tabObject \<Rightarrow> 'p tabObject) \<Rightarrow> 'p page \<Rightarrow> 'p page" where
  "updTab t f p = p\<lparr>objs := (objs p)(t := f (objs p t))\<rparr>"

definition TabBase_Focus :: "tab \<Rightarrow> FocusState \<Rightarrow> 'p page \<Rightarrow> 'p page" where
  "TabBase_Focus t fs p = updTab t (\<lambda>ob. ob\<lparr>focusState := fs\<rparr>) p"

subsection \<open>Focused tab\<close>

definition GetFocusedTabIndex :: "'p page \<Rightarrow> nat option" where
  "GetFocusedTabIndex p =
     (case selectedItem p of
        None \<Rightarrow> None
      | Some item \<Rightarrow> IndexOf (tabItems p) item)"

text \<open>\<^verbatim>\<open>_GetFocusedTab\<close> is \<^verbatim>\<open>noexcept\<close> and calls \<^verbatim>\<open>_tabs.GetAt\<close>.\<close>

definition GetFocusedTab :: "'p page \<Rightarrow> error + tab option" where
  "GetFocusedTab p =
     (case GetFocusedTabIndex p of
        Some index \<Rightarrow>
          if index < length (tabs p) then Inr (Some (tabs p ! index)) else Inl Terminate
      | None \<Rightarrow> Inr None)"

definition GetTerminalTabImpl :: "'p page \<Rightarrow> tab \<Rightarrow> tab option" where
  "GetTerminalTabImpl p t = (if kind (objs p t) = TerminalTabKind then Some t else None)"

definition GetFocusedTabImpl :: "'p page \<Rightarrow> error + tab option" where
  "GetFocusedTabImpl p =
     (case GetFocusedTab p of
        Inl e \<Rightarrow> Inl e
      | Inr None \<Rightarrow> Inr None
      | Inr (Some t) \<Rightarrow> Inr (GetTerminalTabImpl p t))"

subsection \<open>The MRU vector\<close>

definition UpdateMRUTab :: "nat \<Rightarrow> 'p page \<Rightarrow> 'p page result" where
  "UpdateMRUTab index p =
     (if index < length (tabs p) then
        (let tab = tabs p ! index in
         case IndexOf (mruTabs p) tab of
           Some mruIndex \<Rightarrow>
             if mruIndex > 0
             then Done (p\<lparr>mruTabs := InsertAt 0 tab (RemoveAt mruIndex (mruTabs p))\<rparr>)
             else Done p
         | None \<Rightarrow> Done p)
      else Threw OutOfBounds p)"

subsection \<open>Selection\<close>

text \<open>
  The TabView and the command palette are controls of the UI framework.  Their events
  are delivered synchronously to the handlers that \<^verbatim>\<open>TerminalPage::Create\<close> registers:
  setting \<^verbatim>\<open>SelectedItem\<close> to another item raises \<^verbatim>\<open>SelectionChanged\<close> ("This kicks off
  TabView::SelectionChanged", as the source says where it sets it), a change of
  \<^verbatim>\<open>TabItems\<close> raises \<^verbatim>\<open>TabItemsChanged\<close>, and a change of the palette's visibility
  runs the registered property callback.  An exception of a handler is passed on to the
  caller of the setter.  \<^verbatim>\<open>SelectedIndex\<close> is the position of the selected item, or -1.

  The index of \<^verbatim>\<open>_UpdatedSelectedTab\<close> is an \<^verbatim>\<open>int32_t\<close>; where it is not negative it is
  the same number as a \<^verbatim>\<open>uint32_t\<close>.
\<close>

definition UpdatedSelectedTab :: "int \<Rightarrow> 'p page \<Rightarrow> 'p page result" where
  "UpdatedSelectedTab index p =
     (let p1 = fold (\<lambda>t. TabBase_Focus t Unfocused) (tabs p) p in
      if index \<ge> 0 then
        CATCH_LOG
          (if nat index < length (tabs p1) then
             (let tab = tabs p1 ! nat index;
                  p2 = p1\<lparr>tabContent := [tab]\<rparr>
              in if paletteVisibility p2 \<noteq> Visible
                 then UpdateMRUTab (nat index) (TabBase_Focus tab Programmatic p2)
                 else Done p2)
           else Threw OutOfBounds p1)
      else Done p1)"

definition SelectedIndex :: "'p page \<Rightarrow> int" where
  "SelectedIndex p = (case GetFocusedTabIndex p of Some i \<Rightarrow> int i | None \<Rightarrow> - 1)"

definition OnTabSelectionChanged :: "'p page \<Rightarrow> 'p page result" where
  "OnTabSelectionChanged p =
     (if \<not> rearranging p \<and> \<not> removing p
      then UpdatedSelectedTab (SelectedIndex p) p
      else Done p)"

definition TabView_SelectedItem :: "tab \<Rightarrow> 'p page \<Rightarrow> 'p page result" where
  "TabView_SelectedItem item p =
     (if selectedItem p = Some item then Done p
      else OnTabSelectionChanged (p\<lparr>selectedItem := Some item\<rparr>))"

subsection \<open>The command palette and the items of the TabView\<close>

definition CommandPaletteClosed :: "'p page \<Rightarrow> 'p page result" where
  "CommandPaletteClosed p =
     (if \<not> flyoutOpen p then
        (case GetFocusedTabIndex p of
           Some index \<Rightarrow>
             if index < length (tabs p)
             then UpdateMRUTab index (TabBase_Focus (tabs p ! index) Programmatic p)
             else Threw OutOfBounds p
         | None \<Rightarrow> Done p)
      else Done p)"

definition CommandPalette_Visibility :: "Visibility \<Rightarrow> 'p page \<Rightarrow> 'p page result" where
  "CommandPalette_Visibility v p =
     (if paletteVisibility p = v then Done p
      else (let p1 = p\<lparr>paletteVisibility := v\<rparr>
            in if paletteVisibility p1 = Collapsed then CommandPaletteClosed p1 else Done p1))"

definition OnTabItemsChanged :: "CollectionChange \<Rightarrow> nat \<Rightarrow> 'p page \<Rightarrow> 'p page result" where
  "OnTabItemsChanged change index p =
     (let p1 = (if rearranging p then
                  (let q = (if change = ItemRemoved then p\<lparr>rearrangeFrom := Some index\<rparr> else p)
                   in if change = ItemInserted then q\<lparr>rearrangeTo := Some index\<rparr> else q)
                else p)
      in CommandPalette_Visibility Collapsed p1)"

text \<open>
  Removing the selected item leaves the TabView without a selection ("the TabView will
  technically not have a selected item at all", \<^verbatim>\<open>_RemoveTab\<close>).
\<close>

definition TabItems_Append :: "tab \<Rightarrow> 'p page \<Rightarrow> 'p page result" where
  "TabItems_Append item p =
     OnTabItemsChanged ItemInserted (length (tabItems p)) (p\<lparr>tabItems := tabItems p @ [item]\<rparr>)"

definition TabItems_RemoveAt :: "nat \<Rightarrow> 'p page \<Rightarrow> 'p page result" where
  "TabItems_RemoveAt index p =
     (if index < length (tabItems p) then
        (let item = tabItems p ! index;
             p1 = p\<lparr>tabItems := RemoveAt index (tabItems p)\<rparr>
         in thenDo
              (if selectedItem p1 = Some item
               then OnTabSelectionChanged (p1\<lparr>selectedItem := None\<rparr>)
               else Done p1)
              (OnTabItemsChanged ItemRemoved index))
      else Threw OutOfBounds p)"

definition TabItems_InsertAt :: "nat \<Rightarrow> tab \<Rightarrow> 'p page \<Rightarrow> 'p page result" where
  "TabItems_InsertAt index item p =
     (if index \<le> length (tabItems p)
      then OnTabItemsChanged ItemInserted index (p\<lparr>tabItems := InsertAt index item (tabItems p)\<rparr>)
      else Threw OutOfBounds p)"

subsection \<open>Opening tabs\<close>

text \<open>
  \<open>newTabImpl\<close> is the object that \<^verbatim>\<open>make_self\<close> allocates, \<open>term\<close> the pane state of a
  tab made from one control, \<open>debugTap\<close> says that the debug connection is present and
  \<open>split\<close> is \<^verbatim>\<open>TerminalTab::SplitPane\<close> for it.  Modelled from the spec: a tab is created
  not zoomed and not read-only, with the profile it was made from (section 3); the
  constructors of \<^verbatim>\<open>TerminalTab\<close> and \<^verbatim>\<open>SettingsTab\<close> are not part of the sources.
\<close>

definition newTerminalTab :: "guid \<Rightarrow> 'p \<Rightarrow> 'p tabObject" where
  "newTerminalTab profileGuid term =
     \<lparr>kind = TerminalTabKind, readOnly = False, focusState = Unfocused, zoomed = False,
      focusedProfile = Some profileGuid, controlReadOnly = False, panes = term\<rparr>"

definition newSettingsTab :: "'p \<Rightarrow> 'p tabObject" where
  "newSettingsTab sui =
     \<lparr>kind = SettingsTabKind, readOnly = False, focusState = Unfocused, zoomed = False,
      focusedProfile = None, controlReadOnly = False, panes = sui\<rparr>"

definition CreateNewTabFromSettings ::
  "('p \<Rightarrow> 'p) \<Rightarrow> tab \<Rightarrow> guid \<Rightarrow> 'p \<Rightarrow> bool \<Rightarrow> 'p page \<Rightarrow> 'p page result" where
  "CreateNewTabFromSettings split newTabImpl profileGuid term debugTap p =
     (let p1 = p\<lparr>objs := (objs p)(newTabImpl := newTerminalTab profileGuid term)\<rparr>;
          p2 = p1\<lparr>tabs := tabs p1 @ [newTabImpl]\<rparr>;
          p3 = p2\<lparr>mruTabs := mruTabs p2 @ [newTabImpl]\<rparr>
      in thenDo (TabItems_Append newTabImpl p3)
           (\<lambda>p4. TabView_SelectedItem newTabImpl
                    (if debugTap
                     then updTab newTabImpl (\<lambda>ob. ob\<lparr>panes := split (panes ob)\<rparr>) p4
                     else p4)))"

definition OpenSettingsUI :: "tab \<Rightarrow> 'p \<Rightarrow> 'p page \<Rightarrow> 'p page result" where
  "OpenSettingsUI newTabImpl sui p =
     (case settingsTab p of
        None \<Rightarrow>
          (let p1 = p\<lparr>objs := (objs p)(newTabImpl := newSettingsTab sui)\<rparr>;
               p2 = p1\<lparr>tabs := tabs p1 @ [newTabImpl]\<rparr>;
               p3 = p2\<lparr>mruTabs := mruTabs p2 @ [newTabImpl]\<rparr>
           in thenDo (TabItems_Append newTabImpl p3)
                (\<lambda>p4. TabView_SelectedItem newTabImpl (p4\<lparr>settingsTab := Some newTabImpl\<rparr>)))
      | Some existing \<Rightarrow> TabView_SelectedItem existing p)"

subsection \<open>Closing tabs\<close>

text \<open>
  \<^verbatim>\<open>_RemoveTab\<close> is a coroutine: it awaits the read-only dialog, whose answer is
  \<open>warningResult\<close>, and runs the rest without suspending.  \<open>unsetRemoving\<close> is the scope
  exit that clears \<^verbatim>\<open>_removing\<close> on every way out.  \<^verbatim>\<open>Shutdown\<close> and
  \<^verbatim>\<open>_UpdateTabIndices\<close> change nothing that the page reads back.
\<close>

fun unsetRemoving :: "'p page result \<Rightarrow> 'p page result" where
  "unsetRemoving (Done s) = Done (s\<lparr>removing := False\<rparr>)"
| "unsetRemoving (Threw e s) = Threw e (s\<lparr>removing := False\<rparr>)"

definition RemoveTab :: "ContentDialogResult \<Rightarrow> tab \<Rightarrow> 'p page \<Rightarrow> 'p page result" where
  "RemoveTab warningResult tab p =
     (if readOnly (objs p tab) \<and> warningResult \<noteq> Primary then Done p
      else
        case IndexOf (tabs p) tab of
          None \<Rightarrow> Done p
        | Some tabIndex \<Rightarrow>
            unsetRemoving
              (let p1 = p\<lparr>removing := True\<rparr>;
                   focusedTabIndex = GetFocusedTabIndex p1;
                   p2 = (case IndexOf (mruTabs p1) tab of
                           Some mruIndex \<Rightarrow> p1\<lparr>mruTabs := RemoveAt mruIndex (mruTabs p1)\<rparr>
                         | None \<Rightarrow> p1);
                   p3 = p2\<lparr>tabs := RemoveAt tabIndex (tabs p2)\<rparr>
               in thenDo (TabItems_RemoveAt tabIndex p3)
                    (\<lambda>p4. thenDo
                       (if length (tabs p4) = 0 then Done (p4\<lparr>lastTabClosed := True\<rparr>)
                        else if focusedTabIndex = Some tabIndex then
                          (if tabSwitcherMode p4 = MostRecentlyUsed then
                             (case mruTabs p4 of
                                [] \<Rightarrow> Threw OutOfBounds p4
                              | newSelectedTab # rest \<Rightarrow>
                                  (case IndexOf (tabs p4) newSelectedTab of
                                     Some newSelectedIndex \<Rightarrow>
                                       thenDo (UpdatedSelectedTab (to_int32 (int newSelectedIndex)) p4)
                                         (TabView_SelectedItem newSelectedTab)
                                   | None \<Rightarrow> Done p4))
                           else
                             (let newSelectedIndex =
                                    clamp (to_int32 (to_uint32 (int tabIndex - 1))) 0
                                      (to_int32 (int (length (tabs p4))))
                              in thenDo (UpdatedSelectedTab newSelectedIndex p4)
                                   (\<lambda>p5. if nat (to_uint32 newSelectedIndex) < length (tabs p5)
                                          then TabView_SelectedItem
                                                 (tabs p5 ! nat (to_uint32 newSelectedIndex)) p5
                                          else Threw OutOfBounds p5)))
                        else Done p4)
                       (\<lambda>p6. Done (if rearranging p6
                                    then p6\<lparr>rearranging := False, rearrangeFrom := None,
                                            rearrangeTo := None\<rparr>
                                    else p6)))))"

definition RemoveTabViewItem :: "ContentDialogResult \<Rightarrow> tab \<Rightarrow> 'p page \<Rightarrow> 'p page result" where
  "RemoveTabViewItem warningResult tabViewItem p =
     (case IndexOf (tabItems p) tabViewItem of
        Some tabIndexFromControl \<Rightarrow>
          if tabIndexFromControl < length (tabs p)
          then notAwaited (RemoveTab warningResult (tabs p ! tabIndexFromControl) p)
          else Threw OutOfBounds p
      | None \<Rightarrow> Done p)"

definition CloseFocusedTab :: "ContentDialogResult \<Rightarrow> 'p page \<Rightarrow> 'p page result" where
  "CloseFocusedTab warningResult p =
     (case GetFocusedTabIndex p of
        Some index \<Rightarrow>
          if index < length (tabs p)
          then notAwaited (RemoveTab warningResult (tabs p ! index) p)
          else Threw OutOfBounds p
      | None \<Rightarrow> Done p)"

subsection \<open>Reordering tabs\<close>

definition TryMoveTab :: "nat \<Rightarrow> int \<Rightarrow> 'p page \<Rightarrow> 'p page result" where
  "TryMoveTab currentTabIndex suggestedNewTabIndex p =
     (let newTabIndex =
            nat (to_uint32 (clamp suggestedNewTabIndex 0
                              (to_int32 (to_uint32 (int (length (tabs p)) - 1)))))
      in if currentTabIndex \<noteq> newTabIndex then
           (if currentTabIndex < length (tabs p) then
              (let tab = tabs p ! currentTabIndex;
                   p1 = p\<lparr>tabs := RemoveAt currentTabIndex (tabs p)\<rparr>
               in if newTabIndex \<le> length (tabs p1) then
                    (let p2 = p1\<lparr>tabs := InsertAt newTabIndex tab (tabs p1)\<rparr>
                     in thenDo (TabItems_RemoveAt currentTabIndex p2)
                          (\<lambda>p3. thenDo (TabItems_InsertAt newTabIndex tab p3)
                                   (TabView_SelectedItem tab)))
                  else Threw OutOfBounds p1)
            else Threw OutOfBounds p)
         else Done p)"

text \<open>
  The handlers of \<^verbatim>\<open>TabDragStarting\<close> and \<^verbatim>\<open>TabDragCompleted\<close> that
  \<^verbatim>\<open>TerminalPage::Create\<close> installs.  While a tab is dragged the TabView moves its own
  item, and \<open>OnTabItemsChanged\<close> records where from and where to.
\<close>

definition TabDragStarting :: "'p page \<Rightarrow> 'p page" where
  "TabDragStarting p = p\<lparr>rearranging := True, rearrangeFrom := None, rearrangeTo := None\<rparr>"

definition TabDragCompleted :: "'p page \<Rightarrow> 'p page result" where
  "TabDragCompleted p =
     thenDo
       (case rearrangeFrom p of
          Some fromIndex \<Rightarrow>
            (case rearrangeTo p of
               Some toIndex \<Rightarrow>
                 if toIndex \<noteq> fromIndex then
                   (if fromIndex < length (tabs p) then
                      (let tab = tabs p ! fromIndex;
                           p1 = p\<lparr>tabs := RemoveAt fromIndex (tabs p)\<rparr>
                       in if toIndex \<le> length (tabs p1)
                          then Done (p1\<lparr>tabs := InsertAt toIndex tab (tabs p1)\<rparr>)
                          else Threw OutOfBounds p1)
                    else Threw OutOfBounds p)
                 else Done p
             | None \<Rightarrow> Done p)
        | None \<Rightarrow> Done p)
       (\<lambda>q. Done (q\<lparr>rearranging := False, rearrangeFrom := None, rearrangeTo := None\<rparr>))"

subsection \<open>Selecting tabs\<close>

text \<open>
  After startup \<^verbatim>\<open>_SelectTab\<close> starts the coroutine \<^verbatim>\<open>_SetFocusedTabIndex\<close>, which
  suspends at once on the dispatcher of the TabView; \<open>SetFocusedTabIndex_resume\<close> is what
  it does when the dispatcher resumes it, and \<open>runDispatcher\<close> lets the dispatcher run
  everything that waits.  \<open>SelectTab_returns\<close> is the value that \<^verbatim>\<open>_SelectTab\<close> returns.
\<close>

definition SetFocusedTabIndex :: "nat \<Rightarrow> 'p page \<Rightarrow> 'p page" where
  "SetFocusedTabIndex tabIndex p = p\<lparr>dispatcherQueue := dispatcherQueue p @ [tabIndex]\<rparr>"

definition SetFocusedTabIndex_resume :: "nat \<Rightarrow> 'p page \<Rightarrow> 'p page result" where
  "SetFocusedTabIndex_resume tabIndex p =
     unhandled
       (if tabIndex < length (tabs p)
        then TabView_SelectedItem (tabs p ! tabIndex) p
        else Threw OutOfBounds p)"

fun runTasks :: "nat list \<Rightarrow> 'p page \<Rightarrow> 'p page result" where
  "runTasks [] p = Done p"
| "runTasks (i # rest) p = thenDo (SetFocusedTabIndex_resume i p) (runTasks rest)"

definition runDispatcher :: "'p page \<Rightarrow> 'p page result" where
  "runDispatcher p = runTasks (dispatcherQueue p) (p\<lparr>dispatcherQueue := []\<rparr>)"

definition SelectTab_returns :: "nat \<Rightarrow> 'p page \<Rightarrow> bool" where
  "SelectTab_returns tabIndex p = (tabIndex < length (tabs p))"

definition SelectTab :: "nat \<Rightarrow> 'p page \<Rightarrow> 'p page result" where
  "SelectTab tabIndex p =
     (if tabIndex < length (tabs p) then
        (if startupState p = InStartup then
           thenDo (TabView_SelectedItem (tabs p ! tabIndex) p)
             (UpdatedSelectedTab (to_int32 (int tabIndex)))
         else Done (SetFocusedTabIndex tabIndex p))
      else Done p)"

definition OnSwitchToTabRequested :: "tab \<Rightarrow> 'p page \<Rightarrow> 'p page result" where
  "OnSwitchToTabRequested tab p =
     (case IndexOf (tabs p) tab of
        Some index \<Rightarrow> SelectTab index p
      | None \<Rightarrow> Done p)"

text \<open>
  The command palette keeps its own lists and cursor (\<^verbatim>\<open>SetTabs\<close>,
  \<^verbatim>\<open>EnableTabSwitcherMode\<close>, \<^verbatim>\<open>SelectNextItem\<close>); the class is not part of the sources.
  What reaches the page is the tab, if any, for which the palette raises
  \<^verbatim>\<open>SwitchToTabRequested\<close> while it selects its next item: \<open>request\<close>.
\<close>

definition SelectNextTab ::
  "bool \<Rightarrow> TabSwitcherMode option \<Rightarrow> tab option \<Rightarrow> 'p page \<Rightarrow> 'p page result" where
  "SelectNextTab bMoveRight customTabSwitcherMode request p =
     (let index = (case GetFocusedTabIndex p of Some i \<Rightarrow> i | None \<Rightarrow> 0);
          tabSwitchMode = (case customTabSwitcherMode of
                             Some m \<Rightarrow> m
                           | None \<Rightarrow> tabSwitcherMode p)
      in if tabSwitchMode = Disabled then
           (let tabCount = length (tabs p)
            in if tabCount = 0 then Threw DivideByZero p
               else
                 (let newTabIndex =
                        to_uint32 (int tabCount + int index + (if bMoveRight then 1 else - 1))
                          mod int tabCount
                  in SelectTab (nat newTabIndex) p))
         else
           thenDo (CommandPalette_Visibility Visible p)
             (\<lambda>p1. case request of
                      Some tab \<Rightarrow> OnSwitchToTabRequested tab p1
                    | None \<Rightarrow> Done p1))"

subsection \<open>Zoom and pane operations\<close>

text \<open>
  \<open>OnTabContentChanged\<close> is the handler that \<^verbatim>\<open>_RegisterTerminalEvents\<close> attaches to a
  tab for the change of its \<^verbatim>\<open>Content\<close> property.

  Modelled from the spec: \<^verbatim>\<open>TerminalTab::ExitZoom\<close> is not part of the sources.  Zoom and
  Unzoom are pure state toggles on the Tab, not the tree (section 4.1); the source adds
  that ExitZoom changes the Content of the tab, "triggering the content changed event".
\<close>

definition OnTabContentChanged :: "tab \<Rightarrow> 'p page \<Rightarrow> 'p page result" where
  "OnTabContentChanged tab p =
     (case GetFocusedTab p of
        Inl e \<Rightarrow> Threw e p
      | Inr focused \<Rightarrow>
          if focused = Some tab
          then Done (TabBase_Focus tab Programmatic (p\<lparr>tabContent := [tab]\<rparr>))
          else Done p)"

definition TerminalTab_ExitZoom :: "tab \<Rightarrow> 'p page \<Rightarrow> 'p page result" where
  "TerminalTab_ExitZoom tab p =
     OnTabContentChanged tab (updTab tab (\<lambda>ob. ob\<lparr>zoomed := False\<rparr>) p)"

definition UnZoomIfNeeded :: "'p page \<Rightarrow> 'p page result" where
  "UnZoomIfNeeded p =
     (case GetFocusedTabImpl p of
        Inl e \<Rightarrow> Threw e p
      | Inr None \<Rightarrow> Done p
      | Inr (Some activeTab) \<Rightarrow>
          if zoomed (objs p activeTab)
          then TerminalTab_ExitZoom activeTab (p\<lparr>tabContent := []\<rparr>)
          else Done p)"

text \<open>
  \<open>onPanes tab f\<close> lets a member function of \<^verbatim>\<open>TerminalTab\<close> or \<^verbatim>\<open>Pane\<close> act on the pane
  tree of \<open>tab\<close>.  The functions themselves (\<open>navigateFocus\<close>, \<open>resizePane\<close>,
  \<open>closePane\<close>, \<open>split\<close>) are parameters.
\<close>

definition onPanes :: "tab \<Rightarrow> ('p \<Rightarrow> 'p) \<Rightarrow> 'p page \<Rightarrow> 'p page" where
  "onPanes tab f p = updTab tab (\<lambda>ob. ob\<lparr>panes := f (panes ob)\<rparr>) p"




subsection \<open>Profiles, splitting and duplicating\<close>

text \<open>
  Modelled from the spec: \<^verbatim>\<open>TerminalSettings::CreateWithProfileByID\<close> is not part of the
  sources.  Profile resolution is \<^verbatim>\<open>(profileId) -> ProfileSettings | NotFound\<close>
  (section 6); not finding the profile is an exception, which the callers log and drop
  ("if the profile doesn't exist anymore in our settings, we'll silently do nothing").
\<close>

definition CreateWithProfileByID :: "'p page \<Rightarrow> guid \<Rightarrow> error + guid" where
  "CreateWithProfileByID p profileGuid =
     (if profileGuid \<in> set (profiles p) then Inr profileGuid else Inl InvalidArg)"

text \<open>
  \<open>argsGuid\<close> is the profile that \<^verbatim>\<open>GetProfileForArgs\<close> finds for the arguments of the
  action, \<open>autoSplit\<close> and \<open>canSplit\<close> are the answers of \<^verbatim>\<open>PreCalculateAutoSplit\<close> and
  \<^verbatim>\<open>PreCalculateCanSplit\<close>.
\<close>

definition SplitPane ::
  "(SplitState \<Rightarrow> guid \<Rightarrow> 'p \<Rightarrow> 'p) \<Rightarrow> SplitState \<Rightarrow> SplitType \<Rightarrow> guid \<Rightarrow> SplitState \<Rightarrow> bool
     \<Rightarrow> 'p page \<Rightarrow> 'p page result" where
  "SplitPane split splitType splitMode argsGuid autoSplit canSplit p =
     (if splitType = SplitNone then Done p
      else
        case GetFocusedTabImpl p of
          Inl e \<Rightarrow> Threw e p
        | Inr None \<Rightarrow> Done p
        | Inr (Some focusedTab) \<Rightarrow>
            CATCH_LOG
              (case (if splitMode = Duplicate then
                       (case focusedProfile (objs p focusedTab) of
                          Some current_guid \<Rightarrow> CreateWithProfileByID p current_guid
                        | None \<Rightarrow> Inr argsGuid)
                     else Inr argsGuid) of
                 Inl e \<Rightarrow> Threw e p
               | Inr realGuid \<Rightarrow>
                   (let realSplitType = (if splitType = Automatic then autoSplit else splitType)
                    in if \<not> canSplit then Done p
                       else thenDo (UnZoomIfNeeded p)
                              (\<lambda>p1. Done (onPanes focusedTab (split realSplitType realGuid) p1)))))"

definition DuplicateTab ::
  "('p \<Rightarrow> 'p) \<Rightarrow> tab \<Rightarrow> 'p \<Rightarrow> bool \<Rightarrow> tab \<Rightarrow> 'p page \<Rightarrow> 'p page result" where
  "DuplicateTab split newTabImpl term debugTap tab p =
     CATCH_LOG
       (case focusedProfile (objs p tab) of
          Some profileGuid \<Rightarrow>
            (case CreateWithProfileByID p profileGuid of
               Inl e \<Rightarrow> Threw e p
             | Inr settings \<Rightarrow>
                 CreateNewTabFromSettings split newTabImpl profileGuid term debugTap p)
        | None \<Rightarrow> Done p)"

definition DuplicateFocusedTab ::
  "('p \<Rightarrow> 'p) \<Rightarrow> tab \<Rightarrow> 'p \<Rightarrow> bool \<Rightarrow> 'p page \<Rightarrow> 'p page result" where
  "DuplicateFocusedTab split newTabImpl term debugTap p =
     (case GetFocusedTabImpl p of
        Inl e \<Rightarrow> Threw e p
      | Inr None \<Rightarrow> Done p
      | Inr (Some terminalTab) \<Rightarrow> DuplicateTab split newTabImpl term debugTap terminalTab p)"

subsection \<open>Consistency of the two orders\<close>

text \<open>
  \<open>bumpMRU\<close> is the move of a tab to the head of the MRU order as the spec words it:
  the tab goes to index 0 and the others keep their relative order.
\<close>

definition bumpMRU :: "tab \<Rightarrow> tab list \<Rightarrow> tab list" where
  "bumpMRU t mru = (if t \<in> set mru then t # remove1 t mru else mru)"

text \<open>
  Between two operations the page is consistent: no tab occurs twice, both orders hold
  the same tabs, the TabView shows the tabs in display order, and the selected item, if
  there is one, is one of them.
\<close>

definition consistent :: "'p page \<Rightarrow> bool" where
  "consistent p \<longleftrightarrow>
     distinct (tabs p) \<and> distinct (mruTabs p) \<and> set (mruTabs p) = set (tabs p) \<and>
     tabItems p = tabs p \<and> set_option (selectedItem p) \<subseteq> set (tabs p)"

text \<open>
  What the handlers of the framework events leave alone (\<open>frame\<close>), and the shape of
  their results: they end normally and touch neither vector of the TabView side, so that
  a result is known by its selected item, the visibility of the palette and its MRU
  vector (\<open>handled\<close>).  \<open>bumpAt\<close> is the MRU vector after the tab at a display index,
  if there is one, has been bumped.
\<close>

definition frame :: "'p page \<Rightarrow> 'p page \<Rightarrow> bool" where
  "frame p q \<longleftrightarrow>
     rearranging q = rearranging p \<and>
     removing q = removing p \<and> flyoutOpen q = flyoutOpen p \<and>
     dispatcherQueue q = dispatcherQueue p \<and> startupState q = startupState p \<and>
     tabSwitcherMode q = tabSwitcherMode p \<and> settingsTab q = settingsTab p \<and>
     lastTabClosed q = lastTabClosed p \<and> profiles q = profiles p"

definition handled ::
  "'p page \<Rightarrow> 'p page result \<Rightarrow> tab option \<Rightarrow> Visibility \<Rightarrow> tab list \<Rightarrow> bool" where
  "handled p r sel vis mru \<longleftrightarrow>
     (\<exists>q. r = Done q \<and> frame p q \<and> tabs q = tabs p \<and> tabItems q = tabItems p \<and>
          selectedItem q = sel \<and> paletteVisibility q = vis \<and> mruTabs q = mru)"

definition bumpAt :: "nat option \<Rightarrow> 'p page \<Rightarrow> tab list" where
  "bumpAt io p =
     (case io of
        Some i \<Rightarrow> if i < length (tabs p) then bumpMRU (tabs p ! i) (mruTabs p) else mruTabs p
      | None \<Rightarrow> mruTabs p)"


text \<open>The page as its constructor and \<^verbatim>\<open>Create\<close> leave it, for given settings.\<close>

definition initialPage :: "'p tabObject \<Rightarrow> TabSwitcherMode \<Rightarrow> guid list \<Rightarrow> 'p page" where
  "initialPage ob mode ps =
     \<lparr>tabs = [], mruTabs = [], tabItems = [], selectedItem = None, objs = (\<lambda>t. ob),
      tabContent = [], settingsTab = None, rearranging = False, rearrangeFrom = None,
      rearrangeTo = None, removing = False, startupState = NotInitialized,
      paletteVisibility = Collapsed, flyoutOpen = False, dispatcherQueue = [],
      lastTabClosed = False, tabSwitcherMode = mode, profiles = ps\<rparr>"

subsection \<open>Example pages\<close>

text \<open>
  A page of terminal tabs that are not zoomed and come from profile 0, in the given
  display order and MRU order, with the given selected item; the tab switcher mode is
  \<open>InOrder\<close> and profile 0 exists.
\<close>

definition examplePage :: "tab list \<Rightarrow> tab list \<Rightarrow> tab option \<Rightarrow> unit page" where
  "examplePage order mru sel =
     (initialPage (newTerminalTab 0 ()) InOrder [0])
       \<lparr>tabs := order, mruTabs := mru, tabItems := order, selectedItem := sel\<rparr>"



text \<open>
  The part of \<open>RemoveTab\<close> that picks the tab to focus after the removal, under a name
  of its own for the proofs (\<open>RemoveTab_unfold\<close> relates the two).
\<close>

definition replaceFocus :: "nat option \<Rightarrow> nat \<Rightarrow> 'p page \<Rightarrow> 'p page result" where
  "replaceFocus focusedTabIndex tabIndex p4 =
     (if length (tabs p4) = 0 then Done (p4\<lparr>lastTabClosed := True\<rparr>)
      else if focusedTabIndex = Some tabIndex then
        (if tabSwitcherMode p4 = MostRecentlyUsed then
           (case mruTabs p4 of
              [] \<Rightarrow> Threw OutOfBounds p4
            | newSelectedTab # rest \<Rightarrow>
                (case IndexOf (tabs p4) newSelectedTab of
                   Some newSelectedIndex \<Rightarrow>
                     thenDo (UpdatedSelectedTab (to_int32 (int newSelectedIndex)) p4)
                       (TabView_SelectedItem newSelectedTab)
                 | None \<Rightarrow> Done p4))
         else
           (let newSelectedIndex =
                  clamp (to_int32 (to_uint32 (int tabIndex - 1))) 0
                    (to_int32 (int (length (tabs p4))))
            in thenDo (UpdatedSelectedTab newSelectedIndex p4)
                 (\<lambda>p5. if nat (to_uint32 newSelectedIndex) < length (tabs p5)
                        then TabView_SelectedItem
                               (tabs p5 ! nat (to_uint32 newSelectedIndex)) p5
                        else Threw OutOfBounds p5)))
      else Done p4)"

text \<open>
  \<open>wrappedIndex\<close> is the index that the spec computes for a request for the next
  (\<open>bMoveRight\<close>) or the previous tab, from the focused index \<open>i\<close> and the number \<open>n\<close>
  of tabs: \<open>(i + 1 + N) mod N\<close> and \<open>(i - 1 + N) mod N\<close>.
\<close>

definition wrappedIndex :: "bool \<Rightarrow> nat \<Rightarrow> nat \<Rightarrow> nat" where
  "wrappedIndex bMoveRight i n = (if bMoveRight then (i + 1 + n) mod n else (i + n - 1) mod n)"

text \<open>
  An initialized page in mode \<open>Disabled\<close> with three tabs, of which tab 2 is selected,
  shown and focused.
\<close>

definition disabledPage :: "unit page" where
  "disabledPage =
     TabBase_Focus 2 Programmatic
       ((examplePage [0, 1, 2] [2, 1, 0] (Some 2))
          \<lparr>tabContent := [2], startupState := Initialized, tabSwitcherMode := Disabled\<rparr>)"

subsection \<open>The tab switcher\<close>




definition orphanedPage :: "unit page" where
  "orphanedPage = (examplePage [0] [0] (Some 0))\<lparr>profiles := [1]\<rparr>"

section \<open>Properties\<close>

subsection \<open>Vectors and the MRU move\<close>

lemma IndexOf_None_iff: "IndexOf xs x = None \<longleftrightarrow> x \<notin> set xs"
  by (induction xs) auto

lemma IndexOf_Some_nth: "IndexOf xs x = Some i \<Longrightarrow> i < length xs \<and> xs ! i = x"
  by (induction xs arbitrary: i) (auto split: if_splits)

lemma IndexOf_mem: "x \<in> set xs \<Longrightarrow> \<exists>i. IndexOf xs x = Some i"
  using IndexOf_None_iff [of xs x] by (cases "IndexOf xs x") auto

lemma RemoveAt_IndexOf: "IndexOf xs x = Some i \<Longrightarrow> RemoveAt i xs = remove1 x xs"
  by (induction xs arbitrary: i) (auto simp: RemoveAt_def split: if_splits)

lemma IndexOf_nth_distinct: "distinct xs \<Longrightarrow> i < length xs \<Longrightarrow> IndexOf xs (xs ! i) = Some i"
proof (induction xs arbitrary: i)
  case Nil
  then show ?case by simp
next
  case (Cons y ys)
  then show ?case by (cases i) auto
qed

lemma IndexOf_append_fresh: "x \<notin> set xs \<Longrightarrow> IndexOf (xs @ [x]) x = Some (length xs)"
  by (induction xs) auto

lemma IndexOf_Some_0_iff: "IndexOf xs x = Some 0 \<longleftrightarrow> (\<exists>ys. xs = x # ys)"
  by (cases xs) (auto split: if_splits)

lemma RemoveAt_nth_distinct: "distinct xs \<Longrightarrow> i < length xs \<Longrightarrow> RemoveAt i xs = remove1 (xs ! i) xs"
  by (simp add: IndexOf_nth_distinct RemoveAt_IndexOf)

lemma mset_InsertAt: "mset (InsertAt i x xs) = add_mset x (mset xs)"
proof -
  have "mset (take i xs) + mset (drop i xs) = mset xs"
    by (metis append_take_drop_id mset_append)
  then show ?thesis by (simp add: InsertAt_def)
qed

lemma length_RemoveAt: "i < length xs \<Longrightarrow> length (RemoveAt i xs) = length xs - 1"
  by (auto simp: RemoveAt_def)

lemma length_InsertAt: "length (InsertAt i x xs) = Suc (length xs)"
  by (auto simp: InsertAt_def)

lemma mset_RemoveAt: "i < length xs \<Longrightarrow> add_mset (xs ! i) (mset (RemoveAt i xs)) = mset xs"
proof -
  assume "i < length xs"
  then have "xs = take i xs @ xs ! i # drop (Suc i) xs"
    by (simp add: id_take_nth_drop)
  then have "mset xs = mset (take i xs @ xs ! i # drop (Suc i) xs)" by simp
  then show ?thesis by (simp add: RemoveAt_def)
qed

lemma bumpMRU_mset: "mset (bumpMRU t mru) = mset mru"
  by (simp add: bumpMRU_def)

lemma UpdateMRUTab_eq:
  "UpdateMRUTab i p =
     (if i < length (tabs p) then Done (p\<lparr>mruTabs := bumpMRU (tabs p ! i) (mruTabs p)\<rparr>)
      else Threw OutOfBounds p)"
proof (cases "i < length (tabs p)")
  case False
  then show ?thesis by (simp add: UpdateMRUTab_def)
next
  case True
  show ?thesis
  proof (cases "IndexOf (mruTabs p) (tabs p ! i)")
    case None
    then have "tabs p ! i \<notin> set (mruTabs p)" by (simp add: IndexOf_None_iff)
    with None True show ?thesis by (simp add: UpdateMRUTab_def bumpMRU_def)
  next
    case (Some k)
    then have mem: "tabs p ! i \<in> set (mruTabs p)"
      using IndexOf_None_iff [of "mruTabs p" "tabs p ! i"] by auto
    show ?thesis
    proof (cases k)
      case 0
      with Some obtain ys where "mruTabs p = tabs p ! i # ys"
        by (auto simp: IndexOf_Some_0_iff)
      with Some 0 True show ?thesis by (simp add: UpdateMRUTab_def bumpMRU_def)
    next
      case (Suc j)
      with Some True mem show ?thesis
        by (simp add: UpdateMRUTab_def bumpMRU_def Let_def InsertAt_def RemoveAt_IndexOf)
    qed
  qed
qed


lemma bumpMRU_idem: "bumpMRU t (bumpMRU t mru) = bumpMRU t mru"
  by (simp add: bumpMRU_def)


subsection \<open>The event handlers\<close>

lemma handledE:
  assumes "handled p r sel vis mru"
  obtains q where "r = Done q" "frame p q" "tabs q = tabs p" "tabItems q = tabItems p"
    "selectedItem q = sel" "paletteVisibility q = vis" "mruTabs q = mru"
  using assms unfolding handled_def by blast

lemma handledI:
  "r = Done q \<Longrightarrow> frame p q \<Longrightarrow> tabs q = tabs p \<Longrightarrow> tabItems q = tabItems p \<Longrightarrow>
   selectedItem q = sel \<Longrightarrow> paletteVisibility q = vis \<Longrightarrow> mruTabs q = mru \<Longrightarrow>
   handled p r sel vis mru"
  unfolding handled_def by blast

lemma bumpAt_cong:
  "tabs q = tabs p \<Longrightarrow> mruTabs q = mruTabs p \<Longrightarrow> bumpAt io q = bumpAt io p"
  by (cases io) (simp_all add: bumpAt_def)

lemma GetFocusedTabIndex_cong:
  "tabItems q = tabItems p \<Longrightarrow> selectedItem q = selectedItem p \<Longrightarrow>
   GetFocusedTabIndex q = GetFocusedTabIndex p"
  by (cases "selectedItem p") (simp_all add: GetFocusedTabIndex_def)


lemma frame_trans: "frame p q \<Longrightarrow> frame q r \<Longrightarrow> frame p r"
  by (simp add: frame_def)

lemma fold_unfocus_frame:
  "frame p (fold (\<lambda>t. TabBase_Focus t Unfocused) ts p) \<and>
   tabs (fold (\<lambda>t. TabBase_Focus t Unfocused) ts p) = tabs p \<and>
   tabItems (fold (\<lambda>t. TabBase_Focus t Unfocused) ts p) = tabItems p \<and>
   selectedItem (fold (\<lambda>t. TabBase_Focus t Unfocused) ts p) = selectedItem p \<and>
   paletteVisibility (fold (\<lambda>t. TabBase_Focus t Unfocused) ts p) = paletteVisibility p \<and>
   mruTabs (fold (\<lambda>t. TabBase_Focus t Unfocused) ts p) = mruTabs p"
  by (induction ts arbitrary: p) (simp_all add: frame_def TabBase_Focus_def updTab_def)

lemma UpdatedSelectedTab_char:
  "handled p (UpdatedSelectedTab i p) (selectedItem p) (paletteVisibility p)
     (if 0 \<le> i \<and> paletteVisibility p \<noteq> Visible then bumpAt (Some (nat i)) p else mruTabs p)"
proof -
  note f = fold_unfocus_frame [of p "tabs p"]
  show ?thesis
    using f
    by (simp add: UpdatedSelectedTab_def Let_def UpdateMRUTab_eq TabBase_Focus_def updTab_def
        frame_def bumpAt_def handled_def)
qed

lemma OnTabSelectionChanged_char:
  "handled p (OnTabSelectionChanged p) (selectedItem p) (paletteVisibility p)
     (if \<not> rearranging p \<and> \<not> removing p \<and> paletteVisibility p \<noteq> Visible
      then bumpAt (GetFocusedTabIndex p) p else mruTabs p)"
proof (cases "\<not> rearranging p \<and> \<not> removing p")
  case False
  then show ?thesis by (auto simp: OnTabSelectionChanged_def frame_def handled_def)
next
  case True
  have "(if 0 \<le> SelectedIndex p \<and> paletteVisibility p \<noteq> Visible
          then bumpAt (Some (nat (SelectedIndex p))) p else mruTabs p) =
        (if paletteVisibility p \<noteq> Visible then bumpAt (GetFocusedTabIndex p) p else mruTabs p)"
    by (cases "GetFocusedTabIndex p") (simp_all add: SelectedIndex_def bumpAt_def)
  with True UpdatedSelectedTab_char [of p "SelectedIndex p"] show ?thesis
    by (simp add: OnTabSelectionChanged_def)
qed

lemma TabView_SelectedItem_char:
  "handled p (TabView_SelectedItem t p) (Some t) (paletteVisibility p)
     (if selectedItem p \<noteq> Some t \<and> \<not> rearranging p \<and> \<not> removing p \<and>
         paletteVisibility p \<noteq> Visible
      then bumpAt (IndexOf (tabItems p) t) p else mruTabs p)"
proof (cases "selectedItem p = Some t")
  case True
  then show ?thesis by (simp add: TabView_SelectedItem_def frame_def handled_def)
next
  case False
  define p1 where "p1 = p\<lparr>selectedItem := Some t\<rparr>"
  have a: "GetFocusedTabIndex p1 = IndexOf (tabItems p) t"
    by (simp add: GetFocusedTabIndex_def p1_def)
  have b: "bumpAt io p1 = bumpAt io p" for io
    by (rule bumpAt_cong) (simp_all add: p1_def)
  have c: "frame p p1" "tabs p1 = tabs p" "tabItems p1 = tabItems p" "selectedItem p1 = Some t"
    "paletteVisibility p1 = paletteVisibility p" "mruTabs p1 = mruTabs p"
    "rearranging p1 = rearranging p" "removing p1 = removing p"
    by (simp_all add: p1_def frame_def)
  from OnTabSelectionChanged_char [of p1] obtain q where q: "OnTabSelectionChanged p1 = Done q"
    "frame p1 q" "tabs q = tabs p1" "tabItems q = tabItems p1" "selectedItem q = selectedItem p1"
    "paletteVisibility q = paletteVisibility p1"
    "mruTabs q =
         (if \<not> rearranging p1 \<and> \<not> removing p1 \<and> paletteVisibility p1 \<noteq> Visible
          then bumpAt (GetFocusedTabIndex p1) p1 else mruTabs p1)"
    by (rule handledE)
  have d: "TabView_SelectedItem t p = Done q"
    using False q(1) by (simp add: TabView_SelectedItem_def p1_def)
  have e: "frame p q" using c(1) q(2) by (rule frame_trans)
  show ?thesis
    by (rule handledI [OF d e]) (simp_all add: q a b c False)
qed

lemma fold_unfocus_objs:
  "focusState (objs (fold (\<lambda>t. TabBase_Focus t Unfocused) ts p) t) =
     (if t \<in> set ts then Unfocused else focusState (objs p t)) \<and>
   tabContent (fold (\<lambda>t. TabBase_Focus t Unfocused) ts p) = tabContent p"
  by (induction ts arbitrary: p) (simp_all add: TabBase_Focus_def updTab_def)

lemma UpdatedSelectedTab_focus:
  assumes "0 \<le> i" "nat i < length (tabs p)"
  shows "tabContent (stateOf (UpdatedSelectedTab i p)) = [tabs p ! nat i]"
    "focusState (objs (stateOf (UpdatedSelectedTab i p)) t) =
       (if t = tabs p ! nat i \<and> paletteVisibility p \<noteq> Visible then Programmatic
        else if t \<in> set (tabs p) then Unfocused else focusState (objs p t))"
  using assms fold_unfocus_frame [of p "tabs p"] fold_unfocus_objs [of "tabs p" p]
    fold_unfocus_objs [of "tabs p" p t]
  by (simp_all add: UpdatedSelectedTab_def Let_def UpdateMRUTab_eq TabBase_Focus_def updTab_def)

lemma TabView_SelectedItem_quiet:
  assumes "selectedItem p = Some t \<or> rearranging p \<or> removing p"
  shows "objs (stateOf (TabView_SelectedItem t p)) = objs p"
    "tabContent (stateOf (TabView_SelectedItem t p)) = tabContent p"
  using assms by (auto simp: TabView_SelectedItem_def OnTabSelectionChanged_def)

lemma TabView_SelectedItem_focus:
  assumes "selectedItem p \<noteq> Some t" "\<not> rearranging p" "\<not> removing p"
    "IndexOf (tabItems p) t = Some j" "j < length (tabs p)"
  shows "tabContent (stateOf (TabView_SelectedItem t p)) = [tabs p ! j]"
    "focusState (objs (stateOf (TabView_SelectedItem t p)) u) =
       (if u = tabs p ! j \<and> paletteVisibility p \<noteq> Visible then Programmatic
        else if u \<in> set (tabs p) then Unfocused else focusState (objs p u))"
proof -
  define p1 where "p1 = p\<lparr>selectedItem := Some t\<rparr>"
  have a: "TabView_SelectedItem t p = UpdatedSelectedTab (int j) p1"
    using assms
    by (simp add: TabView_SelectedItem_def OnTabSelectionChanged_def SelectedIndex_def
        GetFocusedTabIndex_def p1_def)
  have b: "0 \<le> int j" "nat (int j) < length (tabs p1)"
    using assms(5) by (simp_all add: p1_def)
  show "tabContent (stateOf (TabView_SelectedItem t p)) = [tabs p ! j]"
    unfolding a using UpdatedSelectedTab_focus(1) [OF b] by (simp add: p1_def)
  show "focusState (objs (stateOf (TabView_SelectedItem t p)) u) =
       (if u = tabs p ! j \<and> paletteVisibility p \<noteq> Visible then Programmatic
        else if u \<in> set (tabs p) then Unfocused else focusState (objs p u))"
    unfolding a using UpdatedSelectedTab_focus(2) [OF b, of u] by (simp add: p1_def)
qed

lemma GetFocusedTabIndex_less:
  "GetFocusedTabIndex p = Some i \<Longrightarrow> i < length (tabItems p)"
  by (auto simp: GetFocusedTabIndex_def split: option.splits dest: IndexOf_Some_nth)

lemma CommandPaletteClosed_char:
  assumes "length (tabItems p) \<le> length (tabs p)"
  shows "handled p (CommandPaletteClosed p) (selectedItem p) (paletteVisibility p)
     (if \<not> flyoutOpen p then bumpAt (GetFocusedTabIndex p) p else mruTabs p)"
proof (cases "GetFocusedTabIndex p")
  case None
  then show ?thesis by (simp add: CommandPaletteClosed_def frame_def bumpAt_def handled_def)
next
  case (Some i)
  with assms have "i < length (tabs p)"
    using GetFocusedTabIndex_less [of p i] by simp
  with Some show ?thesis
    by (simp add: CommandPaletteClosed_def frame_def bumpAt_def UpdateMRUTab_eq
        TabBase_Focus_def updTab_def handled_def)
qed

lemma CommandPalette_Visibility_char:
  assumes "length (tabItems p) \<le> length (tabs p)"
  shows "handled p (CommandPalette_Visibility v p) (selectedItem p) v
     (if paletteVisibility p \<noteq> v \<and> v = Collapsed \<and> \<not> flyoutOpen p
      then bumpAt (GetFocusedTabIndex p) p else mruTabs p)"
proof (cases "paletteVisibility p \<noteq> v \<and> v = Collapsed")
  case False
  then show ?thesis by (auto simp: CommandPalette_Visibility_def frame_def Let_def handled_def)
next
  case True
  define p1 where "p1 = p\<lparr>paletteVisibility := v\<rparr>"
  have a: "GetFocusedTabIndex p1 = GetFocusedTabIndex p"
    by (rule GetFocusedTabIndex_cong) (simp_all add: p1_def)
  have b: "bumpAt io p1 = bumpAt io p" for io
    by (rule bumpAt_cong) (simp_all add: p1_def)
  have c: "frame p p1" "tabs p1 = tabs p" "tabItems p1 = tabItems p"
    "selectedItem p1 = selectedItem p"
    "paletteVisibility p1 = v" "mruTabs p1 = mruTabs p" "flyoutOpen p1 = flyoutOpen p"
    by (simp_all add: p1_def frame_def)
  have d: "length (tabItems p1) \<le> length (tabs p1)"
    using assms c by simp
  from CommandPaletteClosed_char [OF d] obtain q where q: "CommandPaletteClosed p1 = Done q"
    "frame p1 q" "tabs q = tabs p1" "tabItems q = tabItems p1" "selectedItem q = selectedItem p1"
    "paletteVisibility q = paletteVisibility p1"
    "mruTabs q = (if \<not> flyoutOpen p1 then bumpAt (GetFocusedTabIndex p1) p1 else mruTabs p1)"
    by (rule handledE)
  have e: "CommandPalette_Visibility v p = Done q"
    using True q(1) by (auto simp: CommandPalette_Visibility_def p1_def Let_def)
  have f: "frame p q" using c(1) q(2) by (rule frame_trans)
  show ?thesis
    by (rule handledI [OF e f]) (insert True, auto simp: q a b c)
qed

lemma OnTabItemsChanged_char:
  assumes "length (tabItems p) \<le> length (tabs p)"
  shows "handled p (OnTabItemsChanged change index p) (selectedItem p) Collapsed
     (if paletteVisibility p = Visible \<and> \<not> flyoutOpen p
      then bumpAt (GetFocusedTabIndex p) p else mruTabs p)"
proof -
  define p1 where "p1 =
    (if rearranging p then
       (let q = (if change = ItemRemoved then p\<lparr>rearrangeFrom := Some index\<rparr> else p)
        in if change = ItemInserted then q\<lparr>rearrangeTo := Some index\<rparr> else q)
     else p)"
  have a: "frame p p1" "tabs p1 = tabs p" "tabItems p1 = tabItems p"
    "selectedItem p1 = selectedItem p" "paletteVisibility p1 = paletteVisibility p"
    "mruTabs p1 = mruTabs p" "flyoutOpen p1 = flyoutOpen p"
    by (simp_all add: p1_def frame_def Let_def)
  have b: "GetFocusedTabIndex p1 = GetFocusedTabIndex p"
    using a by (intro GetFocusedTabIndex_cong)
  have b': "bumpAt io p1 = bumpAt io p" for io
    using a by (intro bumpAt_cong)
  have c: "length (tabItems p1) \<le> length (tabs p1)"
    using assms a by simp
  have d: "OnTabItemsChanged change index p = CommandPalette_Visibility Collapsed p1"
    by (simp add: OnTabItemsChanged_def p1_def)
  have e: "paletteVisibility p \<noteq> Collapsed \<longleftrightarrow> paletteVisibility p = Visible"
    by (cases "paletteVisibility p") simp_all
  from CommandPalette_Visibility_char [OF c, of Collapsed] obtain q where
    q: "CommandPalette_Visibility Collapsed p1 = Done q" "frame p1 q"
    "tabs q = tabs p1" "tabItems q = tabItems p1" "selectedItem q = selectedItem p1"
    "paletteVisibility q = Collapsed"
    "mruTabs q =
         (if paletteVisibility p1 \<noteq> Collapsed \<and> Collapsed = Collapsed \<and> \<not> flyoutOpen p1
          then bumpAt (GetFocusedTabIndex p1) p1 else mruTabs p1)"
    by (rule handledE)
  have f: "frame p q" using a(1) q(2) by (rule frame_trans)
  have g: "OnTabItemsChanged change index p = Done q"
    using d q(1) by simp
  show ?thesis
    by (rule handledI [OF g f]) (simp_all add: q a b b' e)
qed

subsection \<open>The claims\<close>

text \<open>
  C10.  Bumping a tab is idempotent: bumping the same display index twice in a row is
  the same as bumping it once (also when the index is out of range and the call throws),
  and when the tab already is at index 0 of the MRU vector the call leaves the page as it
  is.
\<close>

theorem UpdateMRUTab_idempotent:
  "thenDo (UpdateMRUTab i p) (UpdateMRUTab i) = UpdateMRUTab i p \<and>
   (i < length (tabs p) \<and> IndexOf (mruTabs p) (tabs p ! i) = Some 0 \<longrightarrow>
      UpdateMRUTab i p = Done p)"
proof
  show "thenDo (UpdateMRUTab i p) (UpdateMRUTab i) = UpdateMRUTab i p"
    by (simp add: UpdateMRUTab_eq bumpMRU_idem)
  show "i < length (tabs p) \<and> IndexOf (mruTabs p) (tabs p ! i) = Some 0 \<longrightarrow>
      UpdateMRUTab i p = Done p"
    by (simp add: UpdateMRUTab_def)
qed

theorem UpdateMRUTab_idempotent_witness:
  "1 < length (tabs (examplePage [0, 1] [1, 0] (Some 1))) \<and>
   IndexOf (mruTabs (examplePage [0, 1] [1, 0] (Some 1)))
     (tabs (examplePage [0, 1] [1, 0] (Some 1)) ! 1) = Some 0 \<and>
   UpdateMRUTab 1 (examplePage [0, 1] [1, 0] (Some 1)) = Done (examplePage [0, 1] [1, 0] (Some 1)) \<and>
   mruTabs (stateOf (UpdateMRUTab 0 (examplePage [0, 1] [1, 0] (Some 1)))) = [0, 1]"
proof -
  let ?p = "examplePage [0, 1] [1, 0] (Some 1)"
  have h: "1 < length (tabs ?p) \<and> IndexOf (mruTabs ?p) (tabs ?p ! 1) = Some 0"
    by (simp add: examplePage_def initialPage_def)
  with UpdateMRUTab_idempotent [of 1 ?p] have "UpdateMRUTab 1 ?p = Done ?p"
    by blast
  moreover have "mruTabs (stateOf (UpdateMRUTab 0 ?p)) = [0, 1]"
    by (simp add: UpdateMRUTab_def examplePage_def initialPage_def InsertAt_def RemoveAt_def)
  ultimately show ?thesis using h by blast
qed

lemma bumpAt_mset: "mset (bumpAt io p) = mset (mruTabs p)"
  by (cases io) (simp_all add: bumpAt_def bumpMRU_mset)

lemma bumpMRU_IndexOf: "t \<in> set mru \<Longrightarrow> IndexOf (bumpMRU t mru) t = Some 0"
  by (simp add: bumpMRU_def)

lemma bumpMRU_head: "IndexOf mru t = Some 0 \<Longrightarrow> bumpMRU t mru = mru"
  by (auto simp: bumpMRU_def IndexOf_Some_0_iff)

text \<open>Appending the item of a tab that is already the last of the display order.\<close>

lemma TabItems_Append_last:
  assumes "tabs p = ts @ [t]" "tabItems p = ts"
  shows "\<exists>q. TabItems_Append t p = Done q \<and> frame p q \<and> tabs q = ts @ [t] \<and>
            tabItems q = ts @ [t] \<and> selectedItem q = selectedItem p \<and>
            paletteVisibility q = Collapsed \<and> mset (mruTabs q) = mset (mruTabs p)"
proof -
  define p1 where "p1 = p\<lparr>tabItems := tabItems p @ [t]\<rparr>"
  have a: "frame p p1" "tabs p1 = ts @ [t]" "tabItems p1 = ts @ [t]"
    "selectedItem p1 = selectedItem p" "mruTabs p1 = mruTabs p"
    using assms by (simp_all add: p1_def frame_def)
  have b: "length (tabItems p1) \<le> length (tabs p1)" using a by simp
  from OnTabItemsChanged_char [OF b, of ItemInserted "length (tabItems p)"] obtain q where
    q: "OnTabItemsChanged ItemInserted (length (tabItems p)) p1 = Done q" "frame p1 q"
    "tabs q = tabs p1" "tabItems q = tabItems p1" "selectedItem q = selectedItem p1"
    "paletteVisibility q = Collapsed"
    "mruTabs q = (if paletteVisibility p1 = Visible \<and> \<not> flyoutOpen p1
          then bumpAt (GetFocusedTabIndex p1) p1 else mruTabs p1)"
    by (rule handledE)
  have "mset (mruTabs q) = mset (mruTabs p)"
    using q(7) a(5) by (simp add: bumpAt_mset)
  moreover have "TabItems_Append t p = Done q"
    using q(1) by (simp add: TabItems_Append_def p1_def)
  moreover have "frame p q" using a(1) q(2) by (rule frame_trans)
  ultimately show ?thesis using q a by simp
qed


text \<open>Selecting the tab that was appended last.\<close>

lemma select_appended:
  assumes "tabs p = ts @ [t]" "tabItems p = ts @ [t]" "t \<notin> set ts" "selectedItem p \<noteq> Some t"
    "t \<in> set (mruTabs p)"
  shows "\<exists>q. TabView_SelectedItem t p = Done q \<and> frame p q \<and> tabs q = ts @ [t] \<and>
            tabItems q = ts @ [t] \<and> selectedItem q = Some t \<and>
            paletteVisibility q = paletteVisibility p \<and>
            mruTabs q =
              (if \<not> rearranging p \<and> \<not> removing p \<and> paletteVisibility p \<noteq> Visible
               then t # remove1 t (mruTabs p) else mruTabs p)"
proof -
  from TabView_SelectedItem_char [of p t] obtain q where
    q: "TabView_SelectedItem t p = Done q" "frame p q" "tabs q = tabs p" "tabItems q = tabItems p"
    "selectedItem q = Some t" "paletteVisibility q = paletteVisibility p"
    "mruTabs q =
       (if selectedItem p \<noteq> Some t \<and> \<not> rearranging p \<and> \<not> removing p \<and>
           paletteVisibility p \<noteq> Visible
        then bumpAt (IndexOf (tabItems p) t) p else mruTabs p)"
    by (rule handledE)
  have "IndexOf (tabItems p) t = Some (length ts)"
    using assms by (simp add: IndexOf_append_fresh)
  then have "bumpAt (IndexOf (tabItems p) t) p = t # remove1 t (mruTabs p)"
    using assms by (simp add: bumpAt_def bumpMRU_def)
  then show ?thesis using q assms by simp
qed

text \<open>
  The common part of opening a terminal tab and opening the settings tab: the new tab
  \<open>t\<close> is already the last of both vectors (page \<open>p3\<close>), its item is appended, \<open>g\<close>
  does something that the TabView does not see, and the item is selected.
\<close>

lemma append_and_select:
  assumes con: "consistent p" and fresh: "t \<notin> set (tabs p)"
    and p3: "tabs p3 = tabs p @ [t]" "tabItems p3 = tabs p" "selectedItem p3 = selectedItem p"
      "mruTabs p3 = mruTabs p @ [t]" "paletteVisibility p3 = paletteVisibility p"
      "rearranging p3 = rearranging p" "removing p3 = removing p"
    and g: "\<And>x. tabs (g x) = tabs x \<and> tabItems (g x) = tabItems x \<and>
      selectedItem (g x) = selectedItem x \<and> paletteVisibility (g x) = paletteVisibility x \<and>
      mruTabs (g x) = mruTabs x \<and> rearranging (g x) = rearranging x \<and>
      removing (g x) = removing x"
  shows "\<exists>q. thenDo (TabItems_Append t p3) (\<lambda>p4. TabView_SelectedItem t (g p4)) = Done q \<and>
            tabs q = tabs p @ [t] \<and> tabItems q = tabs p @ [t] \<and>
            selectedItem q = Some t \<and>
            mset (mruTabs q) = add_mset t (mset (mruTabs p)) \<and>
            (\<not> rearranging p \<and> \<not> removing p \<longrightarrow> IndexOf (mruTabs q) t = Some 0) \<and>
            (rearranging p \<or> removing p \<longrightarrow>
               paletteVisibility p = Collapsed \<longrightarrow> mruTabs q = mruTabs p @ [t])"
proof -
  have c: "set_option (selectedItem p) \<subseteq> set (tabs p)"
    using con by (simp add: consistent_def)
  from TabItems_Append_last [OF p3(1,2)] obtain p4 where
    p4: "TabItems_Append t p3 = Done p4" "frame p3 p4" "tabs p4 = tabs p @ [t]"
    "tabItems p4 = tabs p @ [t]" "selectedItem p4 = selectedItem p3"
    "paletteVisibility p4 = Collapsed" "mset (mruTabs p4) = mset (mruTabs p3)"
    by blast
  define p5 where "p5 = g p4"
  have p5: "tabs p5 = tabs p @ [t]" "tabItems p5 = tabs p @ [t]"
    "selectedItem p5 = selectedItem p" "paletteVisibility p5 = Collapsed"
    "mruTabs p5 = mruTabs p4"
    using p4 p3 g [of p4] by (simp_all add: p5_def)
  have flags: "rearranging p5 = rearranging p" "removing p5 = removing p"
    using p3(6,7) p4(2) g [of p4] by (simp_all add: frame_def p5_def)
  have sel: "selectedItem p5 \<noteq> Some t"
    using c fresh p5(3) by auto
  have mem: "t \<in> set (mruTabs p5)"
  proof -
    have "t \<in># mset (mruTabs p5)" using p5(5) p4(7) p3(4) by simp
    then show ?thesis by simp
  qed
  from select_appended [OF p5(1,2) fresh sel mem] obtain q where
    q: "TabView_SelectedItem t p5 = Done q" "frame p5 q"
    "tabs q = tabs p @ [t]" "tabItems q = tabs p @ [t]"
    "selectedItem q = Some t" "paletteVisibility q = paletteVisibility p5"
    "mruTabs q =
       (if \<not> rearranging p5 \<and> \<not> removing p5 \<and> paletteVisibility p5 \<noteq> Visible
        then t # remove1 t (mruTabs p5) else mruTabs p5)"
    by blast
  have run: "thenDo (TabItems_Append t p3) (\<lambda>p4. TabView_SelectedItem t (g p4)) = Done q"
    using p4(1) q(1) by (simp add: p5_def)
  have ms: "mset (mruTabs q) = add_mset t (mset (mruTabs p))"
    using q(7) mem p5(5) p4(7) p3(4) by simp
  have front: "\<not> rearranging p \<and> \<not> removing p \<longrightarrow> IndexOf (mruTabs q) t = Some 0"
    using q(7) flags p5(4) by simp
  have atEnd: "rearranging p \<or> removing p \<longrightarrow>
               paletteVisibility p = Collapsed \<longrightarrow> mruTabs q = mruTabs p @ [t]"
  proof (intro impI)
    assume a: "rearranging p \<or> removing p" and b: "paletteVisibility p = Collapsed"
    have "OnTabItemsChanged ItemInserted (length (tabItems p3)) (p3\<lparr>tabItems := tabItems p3 @ [t]\<rparr>)
          = Done p4"
      using p4(1) by (simp add: TabItems_Append_def)
    then have "mruTabs p4 = mruTabs p3"
      using b p3(5)
      by (auto simp: OnTabItemsChanged_def CommandPalette_Visibility_def Let_def split: if_splits)
    then show "mruTabs q = mruTabs p @ [t]"
      using q(7) flags a p5(5) p3(4) by auto
  qed
  show ?thesis using run q(3,4,5) ms front atEnd by blast
qed

lemma CreateNewTabFromSettings_char:
  assumes "consistent p" "newTabImpl \<notin> set (tabs p)"
  shows "\<exists>q. CreateNewTabFromSettings split newTabImpl profileGuid term debugTap p = Done q \<and>
            tabs q = tabs p @ [newTabImpl] \<and> tabItems q = tabs p @ [newTabImpl] \<and>
            selectedItem q = Some newTabImpl \<and>
            mset (mruTabs q) = add_mset newTabImpl (mset (mruTabs p)) \<and>
            (\<not> rearranging p \<and> \<not> removing p \<longrightarrow> IndexOf (mruTabs q) newTabImpl = Some 0) \<and>
            (rearranging p \<or> removing p \<longrightarrow>
               paletteVisibility p = Collapsed \<longrightarrow> mruTabs q = mruTabs p @ [newTabImpl])"
proof -
  define p3 where "p3 = p\<lparr>objs := (objs p)(newTabImpl := newTerminalTab profileGuid term),
    tabs := tabs p @ [newTabImpl], mruTabs := mruTabs p @ [newTabImpl]\<rparr>"
  define g where "g = (\<lambda>p4. if debugTap
    then updTab newTabImpl (\<lambda>ob. ob\<lparr>panes := split (panes ob)\<rparr>) p4 else p4)"
  have c: "tabItems p = tabs p"
    using assms(1) by (simp add: consistent_def)
  have run: "CreateNewTabFromSettings split newTabImpl profileGuid term debugTap p =
    thenDo (TabItems_Append newTabImpl p3) (\<lambda>p4. TabView_SelectedItem newTabImpl (g p4))"
    by (simp add: CreateNewTabFromSettings_def Let_def p3_def g_def)
  show ?thesis
    unfolding run
    by (rule append_and_select [OF assms]) (simp_all add: p3_def g_def c updTab_def)
qed

lemma OpenSettingsUI_char:
  assumes "consistent p" "newTabImpl \<notin> set (tabs p)" "settingsTab p = None"
  shows "\<exists>q. OpenSettingsUI newTabImpl sui p = Done q \<and>
            tabs q = tabs p @ [newTabImpl] \<and> tabItems q = tabs p @ [newTabImpl] \<and>
            selectedItem q = Some newTabImpl \<and>
            mset (mruTabs q) = add_mset newTabImpl (mset (mruTabs p)) \<and>
            (\<not> rearranging p \<and> \<not> removing p \<longrightarrow> IndexOf (mruTabs q) newTabImpl = Some 0) \<and>
            (rearranging p \<or> removing p \<longrightarrow>
               paletteVisibility p = Collapsed \<longrightarrow> mruTabs q = mruTabs p @ [newTabImpl])"
proof -
  define p3 where "p3 = p\<lparr>objs := (objs p)(newTabImpl := newSettingsTab sui),
    tabs := tabs p @ [newTabImpl], mruTabs := mruTabs p @ [newTabImpl]\<rparr>"
  define g where "g = (\<lambda>p4::'a page. p4\<lparr>settingsTab := Some newTabImpl\<rparr>)"
  have c: "tabItems p = tabs p"
    using assms(1) by (simp add: consistent_def)
  have run: "OpenSettingsUI newTabImpl sui p =
    thenDo (TabItems_Append newTabImpl p3) (\<lambda>p4. TabView_SelectedItem newTabImpl (g p4))"
    using assms(3) by (simp add: OpenSettingsUI_def Let_def p3_def g_def)
  show ?thesis
    unfolding run
    by (rule append_and_select [OF assms(1,2)]) (simp_all add: p3_def g_def c)
qed


lemma examplePage_simps:
  "tabs (examplePage order mru sel) = order"
  "mruTabs (examplePage order mru sel) = mru"
  "tabItems (examplePage order mru sel) = order"
  "selectedItem (examplePage order mru sel) = sel"
  "rearranging (examplePage order mru sel) = False"
  "removing (examplePage order mru sel) = False"
  "paletteVisibility (examplePage order mru sel) = Collapsed"
  "flyoutOpen (examplePage order mru sel) = False"
  "settingsTab (examplePage order mru sel) = None"
  "startupState (examplePage order mru sel) = NotInitialized"
  "tabSwitcherMode (examplePage order mru sel) = InOrder"
  "dispatcherQueue (examplePage order mru sel) = []"
  "profiles (examplePage order mru sel) = [0]"
  "objs (examplePage order mru sel) t = newTerminalTab 0 ()"
  by (simp_all add: examplePage_def initialPage_def)




lemma TabItems_RemoveAt_char:
  assumes "i < length (tabItems p)" "length (tabItems p) \<le> Suc (length (tabs p))"
  defines "sel \<equiv> (if selectedItem p = Some (tabItems p ! i) then None else selectedItem p)"
  defines "p' \<equiv> p\<lparr>tabItems := RemoveAt i (tabItems p), selectedItem := sel\<rparr>"
  shows "handled p' (TabItems_RemoveAt i p) sel Collapsed
     (if paletteVisibility p = Visible \<and> \<not> flyoutOpen p
      then bumpAt (GetFocusedTabIndex p') p' else mruTabs p)"
proof -
  define p1 where "p1 = p\<lparr>tabItems := RemoveAt i (tabItems p)\<rparr>"
  define r where "r = (if selectedItem p1 = Some (tabItems p ! i)
               then OnTabSelectionChanged (p1\<lparr>selectedItem := None\<rparr>)
               else Done p1)"
  have run: "TabItems_RemoveAt i p = thenDo r (OnTabItemsChanged ItemRemoved i)"
    using assms(1) by (simp add: TabItems_RemoveAt_def Let_def p1_def r_def)
  have p': "frame p' p'" "tabs p' = tabs p" "tabItems p' = RemoveAt i (tabItems p)"
    "selectedItem p' = sel" "paletteVisibility p' = paletteVisibility p"
    "mruTabs p' = mruTabs p" "flyoutOpen p' = flyoutOpen p"
    by (simp_all add: p'_def frame_def)
  have "\<exists>p2. r = Done p2 \<and> frame p' p2 \<and> tabs p2 = tabs p' \<and> tabItems p2 = tabItems p' \<and>
     selectedItem p2 = sel \<and> paletteVisibility p2 = paletteVisibility p \<and>
     mruTabs p2 = mruTabs p \<and> flyoutOpen p2 = flyoutOpen p"
  proof (cases "selectedItem p = Some (tabItems p ! i)")
    case False
    then have "r = Done p1" by (simp add: r_def p1_def)
    moreover have "p1 = p'" using False by (simp add: p1_def p'_def sel_def)
    ultimately show ?thesis using p' by simp
  next
    case True
    have eq: "p1\<lparr>selectedItem := None\<rparr> = p'"
      using True by (simp add: p1_def p'_def sel_def)
    have none: "GetFocusedTabIndex p' = None"
      using True by (simp add: GetFocusedTabIndex_def p'_def sel_def)
    from OnTabSelectionChanged_char [of p'] obtain p2 where
      p2: "OnTabSelectionChanged p' = Done p2" "frame p' p2" "tabs p2 = tabs p'"
      "tabItems p2 = tabItems p'" "selectedItem p2 = selectedItem p'"
      "paletteVisibility p2 = paletteVisibility p'"
      "mruTabs p2 =
         (if \<not> rearranging p' \<and> \<not> removing p' \<and> paletteVisibility p' \<noteq> Visible
          then bumpAt (GetFocusedTabIndex p') p' else mruTabs p')"
      by (rule handledE)
    have "mruTabs p2 = mruTabs p"
      using p2(7) none p'(6) by (simp add: bumpAt_def)
    moreover have "r = Done p2"
      using True p2(1) eq by (simp add: r_def p1_def)
    moreover have "flyoutOpen p2 = flyoutOpen p"
      using p2(2) p'(7) by (simp add: frame_def)
    ultimately show ?thesis using p2 p' by simp
  qed
  then obtain p2 where p2: "r = Done p2" "frame p' p2" "tabs p2 = tabs p'"
    "tabItems p2 = tabItems p'" "selectedItem p2 = sel"
    "paletteVisibility p2 = paletteVisibility p" "mruTabs p2 = mruTabs p"
    "flyoutOpen p2 = flyoutOpen p"
    by blast
  have len: "length (tabItems p2) \<le> length (tabs p2)"
    using assms(1,2) p2(3,4) p'(2,3) by (simp add: length_RemoveAt)
  from OnTabItemsChanged_char [OF len, of ItemRemoved i] obtain q where
    q: "OnTabItemsChanged ItemRemoved i p2 = Done q" "frame p2 q" "tabs q = tabs p2"
    "tabItems q = tabItems p2" "selectedItem q = selectedItem p2" "paletteVisibility q = Collapsed"
    "mruTabs q =
       (if paletteVisibility p2 = Visible \<and> \<not> flyoutOpen p2
        then bumpAt (GetFocusedTabIndex p2) p2 else mruTabs p2)"
    by (rule handledE)
  have a: "GetFocusedTabIndex p2 = GetFocusedTabIndex p'"
    by (rule GetFocusedTabIndex_cong) (simp_all add: p2 p')
  have b: "bumpAt io p2 = bumpAt io p'" for io
    by (rule bumpAt_cong) (simp_all add: p2 p')
  have d: "TabItems_RemoveAt i p = Done q"
    using run p2(1) q(1) by simp
  have e: "frame p' q" using p2(2) q(2) by (rule frame_trans)
  show ?thesis
    by (rule handledI [OF d e]) (simp_all add: q p2 a b)
qed


lemma to_int32_id: "0 \<le> x \<Longrightarrow> x < 2 ^ 31 \<Longrightarrow> to_int32 x = x"
  by (simp add: to_int32_def)

lemma to_uint32_id: "0 \<le> x \<Longrightarrow> x < 2 ^ 32 \<Longrightarrow> to_uint32 x = x"
  by (simp add: to_uint32_def)

lemma to_int32_pred: "0 \<le> x \<Longrightarrow> x < 2 ^ 31 \<Longrightarrow> to_int32 (to_uint32 (x - 1)) = x - 1"
proof (cases "x = 0")
  case True
  then show ?thesis by (simp add: to_int32_def to_uint32_def)
next
  case False
  assume "0 \<le> x" "x < 2 ^ 31"
  with False have "0 \<le> x - 1" "x - 1 < 2 ^ 31" by simp_all
  then show ?thesis by (simp add: to_int32_id to_uint32_id)
qed

lemma GetFocusedTabIndex_consistent:
  assumes "consistent p" "IndexOf (tabs p) tab = Some i"
  shows "GetFocusedTabIndex p = Some i \<longleftrightarrow> selectedItem p = Some tab"
proof -
  have c: "tabItems p = tabs p" using assms(1) by (simp add: consistent_def)
  show ?thesis
  proof (cases "selectedItem p")
    case None
    then show ?thesis by (simp add: GetFocusedTabIndex_def)
  next
    case (Some s)
    have "IndexOf (tabs p) s = Some i \<longleftrightarrow> s = tab"
      using assms(2) IndexOf_Some_nth [of "tabs p" s i] IndexOf_Some_nth [of "tabs p" tab i]
      by auto
    with Some c show ?thesis by (simp add: GetFocusedTabIndex_def)
  qed
qed

lemma set_remove1_consistent:
  assumes "consistent p"
  shows "set (remove1 tab (mruTabs p)) = set (remove1 tab (tabs p))"
    "distinct (remove1 tab (mruTabs p))" "distinct (remove1 tab (tabs p))"
  using assms by (simp_all add: consistent_def)




lemma RemoveTab_unfold:
  "RemoveTab warningResult tab p =
     (if readOnly (objs p tab) \<and> warningResult \<noteq> Primary then Done p
      else
        case IndexOf (tabs p) tab of
          None \<Rightarrow> Done p
        | Some tabIndex \<Rightarrow>
            unsetRemoving
              (thenDo
                 (TabItems_RemoveAt tabIndex
                    ((case IndexOf (mruTabs p) tab of
                        Some mruIndex \<Rightarrow>
                          p\<lparr>removing := True, mruTabs := RemoveAt mruIndex (mruTabs p)\<rparr>
                      | None \<Rightarrow> p\<lparr>removing := True\<rparr>)
                     \<lparr>tabs := RemoveAt tabIndex (tabs p)\<rparr>))
                 (\<lambda>p4. thenDo (replaceFocus (GetFocusedTabIndex (p\<lparr>removing := True\<rparr>))
                                 tabIndex p4)
                    (\<lambda>p6. Done (if rearranging p6
                                 then p6\<lparr>rearranging := False, rearrangeFrom := None,
                                         rearrangeTo := None\<rparr>
                                 else p6)))))"
  by (cases "IndexOf (tabs p) tab"; cases "IndexOf (mruTabs p) tab")
    (simp_all add: RemoveTab_def replaceFocus_def Let_def)

lemma clamp_left:
  assumes "i \<le> n" "0 < n"
  shows "clamp (int i - 1) 0 (int n) = clamp (int i - 1) 0 (int n - 1)"
    "0 \<le> clamp (int i - 1) 0 (int n)" "nat (clamp (int i - 1) 0 (int n)) < n"
  using assms by (auto simp: clamp_def)

lemma replaceFocus_char:
  assumes p4: "tabItems p4 = tabs p4" "distinct (tabs p4)" "set (mruTabs p4) = set (tabs p4)"
      "removing p4" "paletteVisibility p4 = Collapsed" "selectedItem p4 = None"
    and small: "length (tabs p4) < 2 ^ 31" and i: "i \<le> length (tabs p4)"
    and ne: "tabs p4 \<noteq> []"
  defines "new \<equiv> (if tabSwitcherMode p4 = MostRecentlyUsed then hd (mruTabs p4)
                   else tabs p4 ! nat (clamp (int i - 1) 0 (int (length (tabs p4)) - 1)))"
  shows "\<exists>q. replaceFocus (Some i) i p4 = Done q \<and> frame p4 q \<and> tabs q = tabs p4 \<and>
            tabItems q = tabItems p4 \<and> selectedItem q = Some new \<and>
            paletteVisibility q = Collapsed \<and> mruTabs q = bumpMRU new (mruTabs p4) \<and>
            tabContent q = [new] \<and>
            (\<forall>t\<in>set (tabs q).
               focusState (objs q t) = (if t = new then Programmatic else Unfocused))"
proof (cases "tabSwitcherMode p4 = MostRecentlyUsed")
  case True
  from ne p4(3) obtain h rest where mru: "mruTabs p4 = h # rest"
    by (cases "mruTabs p4") auto
  then have hmem: "h \<in> set (tabs p4)" using p4(3) by auto
  obtain k where k: "IndexOf (tabs p4) h = Some k"
    using IndexOf_mem [OF hmem] by (elim exE)
  have k': "k < length (tabs p4)" "tabs p4 ! k = h"
    using IndexOf_Some_nth [OF k] by (rule conjunct1, rule conjunct2)
  have ki: "to_int32 (int k) = int k" using k' small by (simp add: to_int32_id)
  from UpdatedSelectedTab_char [of p4 "int k"] obtain p5 where
    p5: "UpdatedSelectedTab (int k) p4 = Done p5" "frame p4 p5" "tabs p5 = tabs p4"
    "tabItems p5 = tabItems p4" "selectedItem p5 = selectedItem p4"
    "paletteVisibility p5 = paletteVisibility p4"
    "mruTabs p5 = (if 0 \<le> int k \<and> paletteVisibility p4 \<noteq> Visible
        then bumpAt (Some (nat (int k))) p4 else mruTabs p4)"
    by (rule handledE)
  have m5: "mruTabs p5 = bumpMRU h (mruTabs p4)"
    using p5(7) p4(5) k' by (simp add: bumpAt_def)
  from TabView_SelectedItem_char [of p5 h] obtain q where
    q: "TabView_SelectedItem h p5 = Done q" "frame p5 q" "tabs q = tabs p5"
    "tabItems q = tabItems p5" "selectedItem q = Some h" "paletteVisibility q = paletteVisibility p5"
    "mruTabs q =
       (if selectedItem p5 \<noteq> Some h \<and> \<not> rearranging p5 \<and> \<not> removing p5 \<and>
           paletteVisibility p5 \<noteq> Visible
        then bumpAt (IndexOf (tabItems p5) h) p5 else mruTabs p5)"
    by (rule handledE)
  have rem: "removing p5" using p5(2) p4(4) by (simp add: frame_def)
  have run: "replaceFocus (Some i) i p4 = Done q"
    using True ne mru k ki p5(1) q(1) by (simp add: replaceFocus_def)
  have fr: "frame p4 q" using p5(2) q(2) by (rule frame_trans)
  have newv: "new = h" using True mru by (simp add: new_def)
  have foc5: "tabContent p5 = [h]"
    "\<And>t. focusState (objs p5 t) =
       (if t = h then Programmatic
        else if t \<in> set (tabs p4) then Unfocused else focusState (objs p4 t))"
    using UpdatedSelectedTab_focus [of "int k" p4] p5(1) k' p4(5) by simp_all
  have focq: "objs q = objs p5" "tabContent q = tabContent p5"
    using TabView_SelectedItem_quiet [of p5 h] rem q(1) by simp_all
  have focus: "tabContent q = [new]"
    "\<forall>t\<in>set (tabs q). focusState (objs q t) = (if t = new then Programmatic else Unfocused)"
    using foc5 focq newv q(3) p5(3) by simp_all
  show ?thesis
    using run fr q(3-7) p5(3-6) rem m5 p4(5) newv focus by simp
next
  case False
  define n where "n = length (tabs p4)"
  have n: "0 < n" "i \<le> n" "n < 2 ^ 31" using ne i small by (simp_all add: n_def)
  define idx where "idx = clamp (int i - 1) 0 (int n)"
  have idx: "idx = clamp (int i - 1) 0 (int n - 1)" "0 \<le> idx" "nat idx < n"
    using clamp_left [OF n(2,1)] by (simp_all add: idx_def)
  have conv: "clamp (to_int32 (to_uint32 (int i - 1))) 0 (to_int32 (int n)) = idx"
    using n by (simp add: to_int32_pred to_int32_id idx_def)
  have u: "to_uint32 idx = idx"
    using idx(2,3) n(3) by (intro to_uint32_id) simp_all
  from UpdatedSelectedTab_char [of p4 idx] obtain p5 where
    p5: "UpdatedSelectedTab idx p4 = Done p5" "frame p4 p5" "tabs p5 = tabs p4"
    "tabItems p5 = tabItems p4" "selectedItem p5 = selectedItem p4"
    "paletteVisibility p5 = paletteVisibility p4"
    "mruTabs p5 = (if 0 \<le> idx \<and> paletteVisibility p4 \<noteq> Visible
        then bumpAt (Some (nat idx)) p4 else mruTabs p4)"
    by (rule handledE)
  have newv: "new = tabs p4 ! nat idx"
    using False idx(1) by (simp add: new_def n_def)
  have m5: "mruTabs p5 = bumpMRU new (mruTabs p4)"
    using p5(7) p4(5) idx(2,3) newv by (simp add: bumpAt_def n_def)
  from TabView_SelectedItem_char [of p5 new] obtain q where
    q: "TabView_SelectedItem new p5 = Done q" "frame p5 q" "tabs q = tabs p5"
    "tabItems q = tabItems p5" "selectedItem q = Some new"
    "paletteVisibility q = paletteVisibility p5"
    "mruTabs q =
       (if selectedItem p5 \<noteq> Some new \<and> \<not> rearranging p5 \<and> \<not> removing p5 \<and>
           paletteVisibility p5 \<noteq> Visible
        then bumpAt (IndexOf (tabItems p5) new) p5 else mruTabs p5)"
    by (rule handledE)
  have rem: "removing p5" using p5(2) p4(4) by (simp add: frame_def)
  have run: "replaceFocus (Some i) i p4 = Done q"
    using False ne conv u idx(3) p5(1,3) q(1) newv
    by (simp add: replaceFocus_def Let_def n_def)
  have fr: "frame p4 q" using p5(2) q(2) by (rule frame_trans)
  have foc5: "tabContent p5 = [new]"
    "\<And>t. focusState (objs p5 t) =
       (if t = new then Programmatic
        else if t \<in> set (tabs p4) then Unfocused else focusState (objs p4 t))"
    using UpdatedSelectedTab_focus [of idx p4] p5(1) idx(2,3) p4(5) newv
    by (simp_all add: n_def)
  have focq: "objs q = objs p5" "tabContent q = tabContent p5"
    using TabView_SelectedItem_quiet [of p5 new] rem q(1) by simp_all
  have focus: "tabContent q = [new]"
    "\<forall>t\<in>set (tabs q). focusState (objs q t) = (if t = new then Programmatic else Unfocused)"
    using foc5 focq q(3) p5(3) by simp_all
  show ?thesis
    using run fr q(3-7) p5(3-6) rem m5 p4(5) focus by simp
qed


lemma RemoveTab_char:
  assumes con: "consistent p" and idx: "IndexOf (tabs p) tab = Some i"
    and small: "length (tabs p) < 2 ^ 31"
    and go: "\<not> (readOnly (objs p tab) \<and> warningResult \<noteq> Primary)"
  defines "remaining \<equiv> length (remove1 tab (tabs p))"
  defines "new \<equiv> (if tabSwitcherMode p = MostRecentlyUsed then hd (remove1 tab (mruTabs p))
                   else remove1 tab (tabs p) ! nat (clamp (int i - 1) 0 (int remaining - 1)))"
  shows "\<exists>q. RemoveTab warningResult tab p = Done q \<and>
            tabs q = remove1 tab (tabs p) \<and> tabItems q = remove1 tab (tabs p) \<and>
            mset (mruTabs q) = mset (remove1 tab (mruTabs p)) \<and> \<not> removing q \<and>
            selectedItem q =
              (if selectedItem p = Some tab
               then (if remaining = 0 then None else Some new)
               else selectedItem p) \<and>
            (selectedItem p = Some tab \<and> 0 < remaining \<longrightarrow>
               mruTabs q = bumpMRU new (remove1 tab (mruTabs p)) \<and> tabContent q = [new] \<and>
               (\<forall>t\<in>set (tabs q).
                  focusState (objs q t) = (if t = new then Programmatic else Unfocused)))"
proof -
  have c: "distinct (tabs p)" "distinct (mruTabs p)" "set (mruTabs p) = set (tabs p)"
    "tabItems p = tabs p" "set_option (selectedItem p) \<subseteq> set (tabs p)"
    using con by (simp_all add: consistent_def)
  have i: "i < length (tabs p)" "tabs p ! i = tab"
    using IndexOf_Some_nth [OF idx] by (rule conjunct1, rule conjunct2)
  have mem: "tab \<in> set (mruTabs p)"
    using nth_mem [OF i(1)] i(2) c(3) by simp
  obtain k where k: "IndexOf (mruTabs p) tab = Some k"
    using IndexOf_mem [OF mem] by (elim exE)
  define p3 where "p3 = p\<lparr>removing := True, mruTabs := remove1 tab (mruTabs p),
    tabs := remove1 tab (tabs p)\<rparr>"
  define fin where "fin = (\<lambda>p6::'a page. Done (if rearranging p6
      then p6\<lparr>rearranging := False, rearrangeFrom := None, rearrangeTo := None\<rparr> else p6))"
  define foc where "foc = GetFocusedTabIndex (p\<lparr>removing := True\<rparr>)"
  have foc: "foc = Some i \<longleftrightarrow> selectedItem p = Some tab"
  proof -
    have "foc = GetFocusedTabIndex p"
      unfolding foc_def by (rule GetFocusedTabIndex_cong) simp_all
    then show ?thesis using GetFocusedTabIndex_consistent [OF con idx] by simp
  qed
  have run: "RemoveTab warningResult tab p =
    unsetRemoving (thenDo (TabItems_RemoveAt i p3) (\<lambda>p4. thenDo (replaceFocus foc i p4) fin))"
    by (subst RemoveTab_unfold, subst if_not_P [OF go])
      (simp add: idx k RemoveAt_IndexOf [OF idx] RemoveAt_IndexOf [OF k] p3_def fin_def foc_def)
  have fin: "\<exists>q. unsetRemoving (fin x) = Done q \<and> tabs q = tabs x \<and> tabItems q = tabItems x \<and>
      mruTabs q = mruTabs x \<and> selectedItem q = selectedItem x \<and> \<not> removing q \<and>
      objs q = objs x \<and> tabContent q = tabContent x" for x
    by (simp add: fin_def)
  define sel where "sel = (if selectedItem p = Some tab then None else selectedItem p)"
  define p' where "p' = p3\<lparr>tabItems := remove1 tab (tabs p), selectedItem := sel\<rparr>"
  have r1: "i < length (tabItems p3)" "length (tabItems p3) \<le> Suc (length (tabs p3))"
    using i c(4) by (auto simp: p3_def length_remove1)
  have e1: "(if selectedItem p3 = Some (tabItems p3 ! i) then None else selectedItem p3) = sel"
    using i c(4) by (simp add: p3_def sel_def)
  have e2: "p3\<lparr>tabItems := RemoveAt i (tabItems p3), selectedItem := sel\<rparr> = p'"
    using idx c(4) by (simp add: p3_def p'_def RemoveAt_IndexOf)
  have p': "tabs p' = remove1 tab (tabs p)" "tabItems p' = remove1 tab (tabs p)"
    "selectedItem p' = sel" "mruTabs p' = remove1 tab (mruTabs p)" "removing p'"
    "tabSwitcherMode p' = tabSwitcherMode p"
    by (simp_all add: p'_def p3_def)
  from TabItems_RemoveAt_char [OF r1] obtain p4 where
    p4: "TabItems_RemoveAt i p3 = Done p4" "frame p' p4" "tabs p4 = tabs p'"
    "tabItems p4 = tabItems p'" "selectedItem p4 = sel" "paletteVisibility p4 = Collapsed"
    "mruTabs p4 =
       (if paletteVisibility p3 = Visible \<and> \<not> flyoutOpen p3
        then bumpAt (GetFocusedTabIndex p') p' else mruTabs p3)"
    unfolding e1 e2 by (rule handledE)
  have m4: "mset (mruTabs p4) = mset (remove1 tab (mruTabs p))"
    using p4(7) p'(4) by (simp add: bumpAt_mset p3_def)
  have f4: "removing p4" "tabSwitcherMode p4 = tabSwitcherMode p"
    using p4(2) p'(5,6) by (simp_all add: frame_def)
  have cnt: "length (tabs p4) = remaining"
    using p4(3) p'(1) by (simp add: remaining_def)
  show ?thesis
  proof (cases "selectedItem p = Some tab")
    case False
    then have nf: "foc \<noteq> Some i" using foc by simp
    have s4: "selectedItem p4 = selectedItem p"
      using False p4(5) by (simp add: sel_def)
    have "\<exists>x. replaceFocus foc i p4 = Done x \<and> tabs x = tabs p4 \<and> tabItems x = tabItems p4 \<and>
        mruTabs x = mruTabs p4 \<and> selectedItem x = selectedItem p4"
      using nf by (simp add: replaceFocus_def)
    then obtain x where x: "replaceFocus foc i p4 = Done x" "tabs x = tabs p4"
      "tabItems x = tabItems p4" "mruTabs x = mruTabs p4" "selectedItem x = selectedItem p4"
      by blast
    from fin [of x] obtain q where q: "unsetRemoving (fin x) = Done q" "tabs q = tabs x"
      "tabItems q = tabItems x" "mruTabs q = mruTabs x" "selectedItem q = selectedItem x"
      "\<not> removing q"
      by blast
    have "RemoveTab warningResult tab p = Done q"
      using run p4(1) x(1) q(1) by simp
    then show ?thesis
      using False q x p4(3,4) p' m4 s4 by simp
  next
    case True
    then have yf: "foc = Some i" using foc by simp
    have s4: "selectedItem p4 = None"
      using True p4(5) by (simp add: sel_def)
    have none: "GetFocusedTabIndex p' = None"
      using True p'(3) by (simp add: GetFocusedTabIndex_def sel_def)
    have m4': "mruTabs p4 = remove1 tab (mruTabs p)"
      using p4(7) none p'(4) by (simp add: bumpAt_def p3_def)
    show ?thesis
    proof (cases "remaining = 0")
      case z: True
      then have "replaceFocus foc i p4 = Done (p4\<lparr>lastTabClosed := True\<rparr>)"
        using cnt by (simp add: replaceFocus_def)
      moreover from fin [of "p4\<lparr>lastTabClosed := True\<rparr>"] obtain q where
        q: "unsetRemoving (fin (p4\<lparr>lastTabClosed := True\<rparr>)) = Done q" "tabs q = tabs p4"
        "tabItems q = tabItems p4" "mruTabs q = mruTabs p4" "selectedItem q = selectedItem p4"
        "\<not> removing q"
        by auto
      ultimately have "RemoveTab warningResult tab p = Done q"
        using run p4(1) by simp
      then show ?thesis
        using True z q p4(3,4) p' m4 s4 by simp
    next
      case nz: False
      have a: "tabItems p4 = tabs p4" "distinct (tabs p4)" "set (mruTabs p4) = set (tabs p4)"
        using p4(3,4) p'(1,2) m4' c by simp_all
      have b: "length (tabs p4) < 2 ^ 31" "i \<le> length (tabs p4)" "tabs p4 \<noteq> []"
        using cnt nz small i(1) by (auto simp: remaining_def length_remove1)
      from replaceFocus_char [OF a f4(1) p4(6) s4 b] obtain x where
        x: "replaceFocus (Some i) i p4 = Done x" "tabs x = tabs p4" "tabItems x = tabItems p4"
        "selectedItem x =
           Some (if tabSwitcherMode p4 = MostRecentlyUsed then hd (mruTabs p4)
                 else tabs p4 ! nat (clamp (int i - 1) 0 (int (length (tabs p4)) - 1)))"
        "mruTabs x =
           bumpMRU (if tabSwitcherMode p4 = MostRecentlyUsed then hd (mruTabs p4)
                 else tabs p4 ! nat (clamp (int i - 1) 0 (int (length (tabs p4)) - 1)))
             (mruTabs p4)"
        "tabContent x =
           [if tabSwitcherMode p4 = MostRecentlyUsed then hd (mruTabs p4)
            else tabs p4 ! nat (clamp (int i - 1) 0 (int (length (tabs p4)) - 1))]"
        "\<forall>t\<in>set (tabs x).
           focusState (objs x t) =
             (if t = (if tabSwitcherMode p4 = MostRecentlyUsed then hd (mruTabs p4)
                      else tabs p4 ! nat (clamp (int i - 1) 0 (int (length (tabs p4)) - 1)))
              then Programmatic else Unfocused)"
        by blast
      have newv: "(if tabSwitcherMode p4 = MostRecentlyUsed then hd (mruTabs p4)
                 else tabs p4 ! nat (clamp (int i - 1) 0 (int (length (tabs p4)) - 1))) = new"
        using f4(2) m4' p4(3) p'(1) cnt by (simp add: new_def)
      from fin [of x] obtain q where q: "unsetRemoving (fin x) = Done q" "tabs q = tabs x"
        "tabItems q = tabItems x" "mruTabs q = mruTabs x" "selectedItem q = selectedItem x"
        "\<not> removing q" "objs q = objs x" "tabContent q = tabContent x"
        by blast
      have "RemoveTab warningResult tab p = Done q"
        using run p4(1) x(1) q(1) yf by simp
      moreover have "mset (mruTabs q) = mset (remove1 tab (mruTabs p))"
        using q(4) x(5) m4' by (simp add: bumpMRU_mset)
      moreover have "tabContent q = [new]"
        "\<forall>t\<in>set (tabs q). focusState (objs q t) = (if t = new then Programmatic else Unfocused)"
        using x(6,7) q(2,7,8) unfolding newv by simp_all
      ultimately show ?thesis
        using True nz q(2,3,4,5,6) x(2,3,4,5) p4(3,4) p'(1,2) m4' newv by simp
    qed
  qed
qed





lemma mset_move: "i < length xs \<Longrightarrow> mset (InsertAt j (xs ! i) (RemoveAt i xs)) = mset xs"
  by (simp add: mset_InsertAt mset_RemoveAt)

lemma TabItems_InsertAt_char:
  assumes "j \<le> length (tabItems p)" "length (tabItems p) < length (tabs p)"
    "paletteVisibility p = Collapsed"
  shows "\<exists>q. TabItems_InsertAt j t p = Done q \<and> frame p q \<and> tabs q = tabs p \<and>
            tabItems q = InsertAt j t (tabItems p) \<and> selectedItem q = selectedItem p \<and>
            paletteVisibility q = Collapsed \<and> mruTabs q = mruTabs p"
proof -
  define p1 where "p1 = p\<lparr>tabItems := InsertAt j t (tabItems p)\<rparr>"
  have a: "frame p p1" "tabs p1 = tabs p" "tabItems p1 = InsertAt j t (tabItems p)"
    "selectedItem p1 = selectedItem p" "mruTabs p1 = mruTabs p"
    "paletteVisibility p1 = Collapsed"
    using assms by (simp_all add: p1_def frame_def)
  have b: "length (tabItems p1) \<le> length (tabs p1)"
    using a assms(2) by (simp add: length_InsertAt)
  from OnTabItemsChanged_char [OF b, of ItemInserted j] obtain q where
    q: "OnTabItemsChanged ItemInserted j p1 = Done q" "frame p1 q"
    "tabs q = tabs p1" "tabItems q = tabItems p1" "selectedItem q = selectedItem p1"
    "paletteVisibility q = Collapsed"
    "mruTabs q = (if paletteVisibility p1 = Visible \<and> \<not> flyoutOpen p1
          then bumpAt (GetFocusedTabIndex p1) p1 else mruTabs p1)"
    by (rule handledE)
  have "TabItems_InsertAt j t p = Done q"
    using q(1) assms(1) by (simp add: TabItems_InsertAt_def p1_def)
  moreover have "frame p q" using a(1) q(2) by (rule frame_trans)
  ultimately show ?thesis using q a by simp
qed

lemma newTabIndex_char:
  assumes "0 < n" "n < 2 ^ 31"
  shows "nat (to_uint32 (clamp sug 0 (to_int32 (to_uint32 (int n - 1))))) =
         nat (clamp sug 0 (int n - 1))"
    "nat (clamp sug 0 (int n - 1)) < n"
proof -
  have a: "to_int32 (to_uint32 (int n - 1)) = int n - 1"
    using assms by (intro to_int32_pred) simp_all
  have b: "0 \<le> clamp sug 0 (int n - 1)" "clamp sug 0 (int n - 1) < int n"
    using assms(1) by (auto simp: clamp_def)
  then have "to_uint32 (clamp sug 0 (int n - 1)) = clamp sug 0 (int n - 1)"
    using assms(2) by (intro to_uint32_id) simp_all
  then show "nat (to_uint32 (clamp sug 0 (to_int32 (to_uint32 (int n - 1))))) =
         nat (clamp sug 0 (int n - 1))"
    using a by simp
  show "nat (clamp sug 0 (int n - 1)) < n" using b by simp
qed

lemma TryMoveTab_char:
  fixes p :: "'p page" and sug :: int and cur :: nat
  assumes con: "consistent p" and cur: "cur < length (tabs p)"
    and small: "length (tabs p) < 2 ^ 31"
  defines "new \<equiv> nat (clamp sug 0 (int (length (tabs p)) - 1))"
  defines "moved \<equiv> InsertAt new (tabs p ! cur) (RemoveAt cur (tabs p))"
  shows "\<exists>q. TryMoveTab cur sug p = Done q \<and>
            tabs q = (if cur = new then tabs p else moved) \<and> tabItems q = tabs q \<and>
            selectedItem q = (if cur = new then selectedItem p else Some (tabs p ! cur)) \<and>
            mset (mruTabs q) = mset (mruTabs p) \<and>
            (paletteVisibility p = Collapsed \<longrightarrow>
               mruTabs q =
                 (if cur \<noteq> new \<and> \<not> rearranging p \<and> \<not> removing p
                  then bumpMRU (tabs p ! cur) (mruTabs p) else mruTabs p))"
proof -
  define n where "n = length (tabs p)"
  define tab where "tab = tabs p ! cur"
  have c: "distinct (tabs p)" "distinct (mruTabs p)" "set (mruTabs p) = set (tabs p)"
    "tabItems p = tabs p" "set_option (selectedItem p) \<subseteq> set (tabs p)"
    using con by (simp_all add: consistent_def)
  have n: "0 < n" "n < 2 ^ 31" using cur small by (auto simp: n_def)
  have nt: "nat (to_uint32 (clamp sug 0 (to_int32 (to_uint32 (int (length (tabs p)) - 1))))) = new"
    "new < n"
    using newTabIndex_char [OF n, of sug] by (simp_all add: new_def n_def)
  show ?thesis
  proof (cases "cur = new")
    case True
    then have "TryMoveTab cur sug p = Done p"
      using nt(1) by (simp add: TryMoveTab_def Let_def)
    then show ?thesis using True c by simp
  next
    case False
    define p2 where "p2 = p\<lparr>tabs := moved\<rparr>"
    have lenr: "length (RemoveAt cur (tabs p)) = n - 1"
      using cur by (simp add: length_RemoveAt n_def)
    have le: "new \<le> length (RemoveAt cur (tabs p))"
      using lenr nt(2) by simp
    have run: "TryMoveTab cur sug p =
      thenDo (TabItems_RemoveAt cur p2)
        (\<lambda>p3. thenDo (TabItems_InsertAt new tab p3) (TabView_SelectedItem tab))"
      using False nt(1) cur le
      by (simp add: TryMoveTab_def Let_def p2_def moved_def tab_def)
    have lm: "length moved = n"
      using n(1) lenr by (simp add: moved_def length_InsertAt)
    have r1: "cur < length (tabItems p2)" "length (tabItems p2) \<le> Suc (length (tabs p2))"
      using cur c(4) lm by (simp_all add: p2_def n_def)
    define sel where "sel = (if selectedItem p = Some tab then None else selectedItem p)"
    define p' where "p' = p2\<lparr>tabItems := RemoveAt cur (tabs p), selectedItem := sel\<rparr>"
    have e1: "(if selectedItem p2 = Some (tabItems p2 ! cur) then None else selectedItem p2) = sel"
      using c(4) by (simp add: p2_def sel_def tab_def)
    have e2: "p2\<lparr>tabItems := RemoveAt cur (tabItems p2), selectedItem := sel\<rparr> = p'"
      using c(4) by (simp add: p2_def p'_def)
    have p': "tabs p' = moved" "tabItems p' = RemoveAt cur (tabs p)" "mruTabs p' = mruTabs p"
      "rearranging p' = rearranging p" "removing p' = removing p"
      by (simp_all add: p'_def p2_def)
    from TabItems_RemoveAt_char [OF r1] obtain p3 where
      p3: "TabItems_RemoveAt cur p2 = Done p3" "frame p' p3" "tabs p3 = tabs p'"
      "tabItems p3 = tabItems p'" "selectedItem p3 = sel" "paletteVisibility p3 = Collapsed"
      "mruTabs p3 =
         (if paletteVisibility p2 = Visible \<and> \<not> flyoutOpen p2
          then bumpAt (GetFocusedTabIndex p') p' else mruTabs p2)"
      unfolding e1 e2 by (rule handledE)
    have m3: "mset (mruTabs p3) = mset (mruTabs p)"
      using p3(7) p'(3) by (simp add: bumpAt_mset p2_def)
    have m3': "paletteVisibility p = Collapsed \<longrightarrow> mruTabs p3 = mruTabs p"
      using p3(7) by (simp add: p2_def)
    have r2: "new \<le> length (tabItems p3)" "length (tabItems p3) < length (tabs p3)"
      using p3(3,4) p' lenr lm nt(2) n(1) by simp_all
    from TabItems_InsertAt_char [OF r2 p3(6), of tab] obtain p4 where
      p4: "TabItems_InsertAt new tab p3 = Done p4" "frame p3 p4" "tabs p4 = tabs p3"
      "tabItems p4 = InsertAt new tab (tabItems p3)" "selectedItem p4 = selectedItem p3"
      "paletteVisibility p4 = Collapsed" "mruTabs p4 = mruTabs p3"
      by blast
    have t4: "tabs p4 = moved" "tabItems p4 = moved"
      using p4(3,4) p3(3,4) p' by (simp_all add: moved_def tab_def)
    have flags: "rearranging p4 = rearranging p" "removing p4 = removing p"
      using p3(2) p4(2) p'(4,5) by (simp_all add: frame_def)
    have msm: "mset moved = mset (tabs p)"
      unfolding moved_def by (rule mset_move [OF cur])
    have tin: "tab \<in> set (tabs p)" using cur by (simp add: tab_def)
    then have tinm: "tab \<in> set moved" using msm by (metis set_mset_mset)
    obtain j where j: "IndexOf moved tab = Some j"
      using IndexOf_mem [OF tinm] by (elim exE)
    have j': "j < length moved" "moved ! j = tab"
      using IndexOf_Some_nth [OF j] by (rule conjunct1, rule conjunct2)
    from TabView_SelectedItem_char [of p4 tab] obtain q where
      q: "TabView_SelectedItem tab p4 = Done q" "frame p4 q" "tabs q = tabs p4"
      "tabItems q = tabItems p4" "selectedItem q = Some tab"
      "paletteVisibility q = paletteVisibility p4"
      "mruTabs q =
         (if selectedItem p4 \<noteq> Some tab \<and> \<not> rearranging p4 \<and> \<not> removing p4 \<and>
             paletteVisibility p4 \<noteq> Visible
          then bumpAt (IndexOf (tabItems p4) tab) p4 else mruTabs p4)"
      by (rule handledE)
    have s4: "selectedItem p4 \<noteq> Some tab"
      using p4(5) p3(5) by (simp add: sel_def)
    have b4: "bumpAt (IndexOf (tabItems p4) tab) p4 = bumpMRU tab (mruTabs p3)"
      using t4 j j' p4(7) by (simp add: bumpAt_def)
    have mq: "mruTabs q =
      (if \<not> rearranging p \<and> \<not> removing p then bumpMRU tab (mruTabs p3) else mruTabs p3)"
      using q(7) s4 flags p4(6,7) b4 by simp
    have "TryMoveTab cur sug p = Done q"
      using run p3(1) p4(1) q(1) by simp
    moreover have "mset (mruTabs q) = mset (mruTabs p)"
      using mq m3 by (simp add: bumpMRU_mset)
    ultimately show ?thesis
      using False q(3,4,5) t4 mq m3' by (simp add: tab_def)
  qed
qed


lemma TabDragCompleted_mru: "mruTabs (stateOf (TabDragCompleted p)) = mruTabs p"
  by (cases "rearrangeFrom p"; cases "rearrangeTo p")
    (simp_all add: TabDragCompleted_def Let_def)

lemma consistentI:
  assumes "mset (tabs q) = mset ts" "distinct ts" "tabItems q = tabs q"
    "mset (mruTabs q) = mset ts" "set_option (selectedItem q) \<subseteq> set ts"
  shows "consistent q"
proof -
  have "distinct (tabs q)" using assms(1,2) by (metis mset_eq_imp_distinct_iff)
  moreover have "distinct (mruTabs q)" using assms(4,2) by (metis mset_eq_imp_distinct_iff)
  moreover have "set (mruTabs q) = set (tabs q)"
    using assms(1,4) by (metis mset_eq_setD)
  moreover have "set_option (selectedItem q) \<subseteq> set (tabs q)"
    using assms(1,5) by (metis mset_eq_setD)
  ultimately show ?thesis using assms(3) by (simp add: consistent_def)
qed

lemma consistent_mset: "consistent p \<Longrightarrow> mset (mruTabs p) = mset (tabs p)"
  using set_eq_iff_mset_eq_distinct [of "mruTabs p" "tabs p"] by (simp add: consistent_def)

lemma CreateNewTabFromSettings_consistent:
  assumes "consistent p" "newTabImpl \<notin> set (tabs p)"
  shows "\<exists>q. CreateNewTabFromSettings split newTabImpl profileGuid term debugTap p = Done q \<and>
            consistent q"
proof -
  from CreateNewTabFromSettings_char [OF assms, of split profileGuid "term" debugTap]
  obtain q where q: "CreateNewTabFromSettings split newTabImpl profileGuid term debugTap p = Done q"
    "tabs q = tabs p @ [newTabImpl]" "tabItems q = tabs p @ [newTabImpl]"
    "selectedItem q = Some newTabImpl"
    "mset (mruTabs q) = add_mset newTabImpl (mset (mruTabs p))"
    by blast
  have "consistent q"
  proof (rule consistentI [where ts = "tabs p @ [newTabImpl]"])
    show "distinct (tabs p @ [newTabImpl])" using assms by (simp add: consistent_def)
    show "mset (mruTabs q) = mset (tabs p @ [newTabImpl])"
      using q(5) consistent_mset [OF assms(1)] by simp
  qed (simp_all add: q)
  then show ?thesis using q(1) by blast
qed

lemma OpenSettingsUI_consistent:
  assumes "consistent p" "newTabImpl \<notin> set (tabs p)" "settingsTab p = None"
  shows "\<exists>q. OpenSettingsUI newTabImpl sui p = Done q \<and> consistent q"
proof -
  from OpenSettingsUI_char [OF assms, of sui]
  obtain q where q: "OpenSettingsUI newTabImpl sui p = Done q"
    "tabs q = tabs p @ [newTabImpl]" "tabItems q = tabs p @ [newTabImpl]"
    "selectedItem q = Some newTabImpl"
    "mset (mruTabs q) = add_mset newTabImpl (mset (mruTabs p))"
    by blast
  have "consistent q"
  proof (rule consistentI [where ts = "tabs p @ [newTabImpl]"])
    show "distinct (tabs p @ [newTabImpl])" using assms by (simp add: consistent_def)
    show "mset (mruTabs q) = mset (tabs p @ [newTabImpl])"
      using q(5) consistent_mset [OF assms(1)] by simp
  qed (simp_all add: q)
  then show ?thesis using q(1) by blast
qed

lemma TryMoveTab_consistent:
  assumes "consistent p" "length (tabs p) < 2 ^ 31"
  shows "consistent (stateOf (TryMoveTab cur sug p))"
proof (cases "cur < length (tabs p)")
  case True
  from TryMoveTab_char [OF assms(1) True assms(2), of sug] obtain q where
    q: "TryMoveTab cur sug p = Done q"
    "tabs q = (if cur = nat (clamp sug 0 (int (length (tabs p)) - 1)) then tabs p
       else InsertAt (nat (clamp sug 0 (int (length (tabs p)) - 1))) (tabs p ! cur)
              (RemoveAt cur (tabs p)))"
    "tabItems q = tabs q"
    "selectedItem q = (if cur = nat (clamp sug 0 (int (length (tabs p)) - 1))
       then selectedItem p else Some (tabs p ! cur))"
    "mset (mruTabs q) = mset (mruTabs p)"
    by blast
  have "consistent q"
  proof (rule consistentI [where ts = "tabs p"])
    show "mset (tabs q) = mset (tabs p)" using q(2) True by (simp add: mset_move)
    show "distinct (tabs p)" using assms(1) by (simp add: consistent_def)
    show "tabItems q = tabs q" by (rule q(3))
    show "mset (mruTabs q) = mset (tabs p)" using q(5) consistent_mset [OF assms(1)] by simp
    show "set_option (selectedItem q) \<subseteq> set (tabs p)"
      using q(4) True assms(1) by (simp add: consistent_def)
  qed
  then show ?thesis using q(1) by simp
next
  case False
  have "stateOf (TryMoveTab cur sug p) = p"
    using False by (simp add: TryMoveTab_def Let_def)
  then show ?thesis using assms(1) by simp
qed

lemma UpdateMRUTab_consistent:
  assumes "consistent p"
  shows "consistent (stateOf (UpdateMRUTab index p))"
proof (cases "index < length (tabs p)")
  case True
  have "consistent (p\<lparr>mruTabs := bumpMRU (tabs p ! index) (mruTabs p)\<rparr>)"
  proof (rule consistentI [where ts = "tabs p"])
    show "mset (mruTabs (p\<lparr>mruTabs := bumpMRU (tabs p ! index) (mruTabs p)\<rparr>)) = mset (tabs p)"
      using consistent_mset [OF assms] by (simp add: bumpMRU_mset)
  qed (use assms in \<open>simp_all add: consistent_def\<close>)
  then show ?thesis using True by (simp add: UpdateMRUTab_eq)
next
  case False
  then show ?thesis using assms by (simp add: UpdateMRUTab_eq)
qed

lemma RemoveTab_consistent:
  assumes con: "consistent p" and small: "length (tabs p) < 2 ^ 31"
  shows "\<exists>q. RemoveTab warningResult tab p = Done q \<and> consistent q"
proof (cases "readOnly (objs p tab) \<and> warningResult \<noteq> Primary")
  case True
  then have "RemoveTab warningResult tab p = Done p" by (simp add: RemoveTab_def)
  then show ?thesis using con by simp
next
  case go: False
  show ?thesis
  proof (cases "IndexOf (tabs p) tab")
    case None
    then have "RemoveTab warningResult tab p = Done p" using go by (auto simp: RemoveTab_def)
    then show ?thesis using con by simp
  next
    case (Some i)
    define remaining where "remaining = length (remove1 tab (tabs p))"
    define new where "new = (if tabSwitcherMode p = MostRecentlyUsed
      then hd (remove1 tab (mruTabs p))
      else remove1 tab (tabs p) ! nat (clamp (int i - 1) 0 (int remaining - 1)))"
    have c: "distinct (tabs p)" "distinct (mruTabs p)" "set (mruTabs p) = set (tabs p)"
      "set_option (selectedItem p) \<subseteq> set (tabs p)"
      using con by (simp_all add: consistent_def)
    have i: "i < length (tabs p)" "tabs p ! i = tab"
      using IndexOf_Some_nth [OF Some] by (rule conjunct1, rule conjunct2)
    from RemoveTab_char [OF con Some small go] obtain q where
      q: "RemoveTab warningResult tab p = Done q" "tabs q = remove1 tab (tabs p)"
      "tabItems q = remove1 tab (tabs p)"
      "mset (mruTabs q) = mset (remove1 tab (mruTabs p))"
      "selectedItem q = (if selectedItem p = Some tab
               then (if remaining = 0 then None else Some new) else selectedItem p)"
      unfolding remaining_def new_def by blast
    have sets: "set (remove1 tab (mruTabs p)) = set (remove1 tab (tabs p))"
      using c by simp
    have mem: "0 < remaining \<Longrightarrow> new \<in> set (remove1 tab (tabs p))"
    proof -
      assume pos: "0 < remaining"
      show ?thesis
      proof (cases "tabSwitcherMode p = MostRecentlyUsed")
        case True
        have "remove1 tab (tabs p) \<noteq> []" using pos by (auto simp: remaining_def)
        then have "remove1 tab (mruTabs p) \<noteq> []" using sets by (metis set_empty)
        then have "hd (remove1 tab (mruTabs p)) \<in> set (remove1 tab (mruTabs p))"
          by (rule hd_in_set)
        then show ?thesis using True sets by (simp add: new_def)
      next
        case False
        have "i \<le> remaining" using i(1) by (auto simp: remaining_def length_remove1)
        from clamp_left [OF this pos]
        have "nat (clamp (int i - 1) 0 (int remaining - 1)) < remaining" by simp
        then show ?thesis using False by (simp add: new_def remaining_def)
      qed
    qed
    have "consistent q"
    proof (rule consistentI [where ts = "remove1 tab (tabs p)"])
      show "mset (tabs q) = mset (remove1 tab (tabs p))" using q(2) by simp
      show "distinct (remove1 tab (tabs p))" using c by simp
      show "tabItems q = tabs q" using q(2,3) by simp
      show "mset (mruTabs q) = mset (remove1 tab (tabs p))"
        using q(4) c sets
          set_eq_iff_mset_eq_distinct [of "remove1 tab (mruTabs p)" "remove1 tab (tabs p)"]
        by simp
      show "set_option (selectedItem q) \<subseteq> set (remove1 tab (tabs p))"
      proof (cases "selectedItem p = Some tab")
        case True
        then show ?thesis using q(5) mem by (cases "remaining = 0") simp_all
      next
        case False
        then show ?thesis using q(5) c by auto
      qed
    qed
    then show ?thesis using q(1) by blast
  qed
qed


lemma TabDragCompleted_sets:
  assumes "rearrangeFrom d = Some f" "rearrangeTo d = Some t" "f < length (tabs d)"
    "t < length (tabs d)" "set (tabs d) = set (mruTabs d)"
  shows "\<exists>q. TabDragCompleted d = Done q \<and> set (tabs q) = set (mruTabs q)"
proof (cases "t = f")
  case True
  then show ?thesis using assms by (simp add: TabDragCompleted_def)
next
  case False
  have "length (RemoveAt f (tabs d)) = length (tabs d) - 1"
    using assms(3) by (rule length_RemoveAt)
  then have le: "t \<le> length (RemoveAt f (tabs d))" using assms(4) by simp
  have "set (InsertAt t (tabs d ! f) (RemoveAt f (tabs d))) = set (tabs d)"
    using mset_move [OF assms(3), of t] by (metis set_mset_mset)
  then show ?thesis
    using False assms le by (simp add: TabDragCompleted_def Let_def)
qed

text \<open>
  C5.  Each of the operations that insert a tab, remove a tab, move a tab and bump a tab
  in the MRU vector leaves a consistent page consistent; in particular the display order
  and the MRU vector hold the same set of tabs afterwards.  The handler of a completed
  drag keeps the two sets equal as well (during the drag the TabView has already moved
  its own item, so the page is not consistent when the handler starts).
\<close>

theorem orders_hold_same_tabs:
  assumes "consistent p" "length (tabs p) < 2 ^ 31"
  shows "(newTabImpl \<notin> set (tabs p) \<longrightarrow>
            (\<exists>q. CreateNewTabFromSettings split newTabImpl profileGuid term debugTap p = Done q \<and>
                 set (tabs q) = set (mruTabs q) \<and> consistent q)) \<and>
         (newTabImpl \<notin> set (tabs p) \<and> settingsTab p = None \<longrightarrow>
            (\<exists>q. OpenSettingsUI newTabImpl sui p = Done q \<and>
                 set (tabs q) = set (mruTabs q) \<and> consistent q)) \<and>
         (\<exists>q. RemoveTab warningResult tab p = Done q \<and>
              set (tabs q) = set (mruTabs q) \<and> consistent q) \<and>
         (set (tabs (stateOf (TryMoveTab currentTabIndex suggestedNewTabIndex p))) =
            set (mruTabs (stateOf (TryMoveTab currentTabIndex suggestedNewTabIndex p))) \<and>
          consistent (stateOf (TryMoveTab currentTabIndex suggestedNewTabIndex p))) \<and>
         (set (tabs (stateOf (UpdateMRUTab index p))) =
            set (mruTabs (stateOf (UpdateMRUTab index p))) \<and>
          consistent (stateOf (UpdateMRUTab index p))) \<and>
         (rearrangeFrom d = Some f \<and> rearrangeTo d = Some t \<and> f < length (tabs d) \<and>
          t < length (tabs d) \<and> set (tabs d) = set (mruTabs d) \<longrightarrow>
            (\<exists>q. TabDragCompleted d = Done q \<and> set (tabs q) = set (mruTabs q)))"
proof -
  have sets: "consistent q \<Longrightarrow> set (tabs q) = set (mruTabs q)" for q :: "'a page"
    by (simp add: consistent_def)
  have a: "newTabImpl \<notin> set (tabs p) \<longrightarrow>
            (\<exists>q. CreateNewTabFromSettings split newTabImpl profileGuid term debugTap p = Done q \<and>
                 set (tabs q) = set (mruTabs q) \<and> consistent q)"
    using CreateNewTabFromSettings_consistent [OF assms(1), of newTabImpl split profileGuid
        "term" debugTap] sets by blast
  have b: "newTabImpl \<notin> set (tabs p) \<and> settingsTab p = None \<longrightarrow>
            (\<exists>q. OpenSettingsUI newTabImpl sui p = Done q \<and>
                 set (tabs q) = set (mruTabs q) \<and> consistent q)"
    using OpenSettingsUI_consistent [OF assms(1), of newTabImpl sui] sets by blast
  have c: "\<exists>q. RemoveTab warningResult tab p = Done q \<and>
              set (tabs q) = set (mruTabs q) \<and> consistent q"
    using RemoveTab_consistent [OF assms, of warningResult tab] sets by blast
  have d: "set (tabs (stateOf (TryMoveTab currentTabIndex suggestedNewTabIndex p))) =
            set (mruTabs (stateOf (TryMoveTab currentTabIndex suggestedNewTabIndex p))) \<and>
          consistent (stateOf (TryMoveTab currentTabIndex suggestedNewTabIndex p))"
    using TryMoveTab_consistent [OF assms, of currentTabIndex suggestedNewTabIndex] sets
    by blast
  have e: "set (tabs (stateOf (UpdateMRUTab index p))) =
            set (mruTabs (stateOf (UpdateMRUTab index p))) \<and>
          consistent (stateOf (UpdateMRUTab index p))"
    using UpdateMRUTab_consistent [OF assms(1), of index] sets by blast
  have g: "rearrangeFrom d = Some f \<and> rearrangeTo d = Some t \<and> f < length (tabs d) \<and>
          t < length (tabs d) \<and> set (tabs d) = set (mruTabs d) \<longrightarrow>
            (\<exists>q. TabDragCompleted d = Done q \<and> set (tabs q) = set (mruTabs q))"
    using TabDragCompleted_sets [of d f t] by blast
  show ?thesis
    by (rule conjI [OF a conjI [OF b conjI [OF c conjI [OF d conjI [OF e g]]]]])
qed

theorem orders_hold_same_tabs_witness:
  "consistent (examplePage [0, 1] [1, 0] (Some 1)) \<and>
   length (tabs (examplePage [0, 1] [1, 0] (Some 1))) < 2 ^ 31 \<and>
   2 \<notin> set (tabs (examplePage [0, 1] [1, 0] (Some 1))) \<and>
   settingsTab (examplePage [0, 1] [1, 0] (Some 1)) = None \<and>
   rearrangeFrom ((examplePage [1, 0] [1, 0] (Some 1))\<lparr>tabs := [0, 1], rearranging := True,
      rearrangeFrom := Some 0, rearrangeTo := Some 1\<rparr>) = Some 0 \<and>
   (\<exists>q. CreateNewTabFromSettings id 2 0 () False (examplePage [0, 1] [1, 0] (Some 1)) = Done q \<and>
        set (tabs q) = set (mruTabs q)) \<and>
   (\<exists>q. OpenSettingsUI 2 () (examplePage [0, 1] [1, 0] (Some 1)) = Done q \<and>
        set (tabs q) = set (mruTabs q)) \<and>
   (\<exists>q. RemoveTab NoResult 1 (examplePage [0, 1] [1, 0] (Some 1)) = Done q \<and>
        set (tabs q) = set (mruTabs q)) \<and>
   set (tabs (stateOf (TryMoveTab 0 1 (examplePage [0, 1] [1, 0] (Some 1))))) =
     set (mruTabs (stateOf (TryMoveTab 0 1 (examplePage [0, 1] [1, 0] (Some 1))))) \<and>
   set (tabs (stateOf (UpdateMRUTab 0 (examplePage [0, 1] [1, 0] (Some 1))))) =
     set (mruTabs (stateOf (UpdateMRUTab 0 (examplePage [0, 1] [1, 0] (Some 1))))) \<and>
   (\<exists>q. TabDragCompleted ((examplePage [1, 0] [1, 0] (Some 1))\<lparr>tabs := [0, 1],
         rearranging := True, rearrangeFrom := Some 0, rearrangeTo := Some 1\<rparr>) = Done q \<and>
        set (tabs q) = set (mruTabs q))"
proof -
  let ?p = "examplePage [0, 1] [1, 0] (Some 1)"
  let ?d = "(examplePage [1, 0] [1, 0] (Some 1))\<lparr>tabs := [0, 1], rearranging := True,
      rearrangeFrom := Some 0, rearrangeTo := Some 1\<rparr>"
  have h1: "consistent ?p"
    by (auto simp: consistent_def examplePage_simps)
  have h2: "length (tabs ?p) < 2 ^ 31" "2 \<notin> set (tabs ?p)" "settingsTab ?p = None"
    by (simp_all add: examplePage_simps)
  have h3: "rearrangeFrom ?d = Some 0" "rearrangeTo ?d = Some 1" "0 < length (tabs ?d)"
    "1 < length (tabs ?d)" "set (tabs ?d) = set (mruTabs ?d)"
    by (auto simp: examplePage_simps)
  from orders_hold_same_tabs [OF h1 h2(1), of 2 id 0 "()" False "()" NoResult 1 0 1 0 ?d 0 1]
    h1 h2 h3
  show ?thesis by blast
qed

text \<open>
  C9 (amended).  The handler of a completed drag changes the display order only and
  leaves the MRU vector as it is.  \<open>TryMoveTab\<close>, called while the tab switcher is
  closed, moves the tab in the display order and selects it again; the MRU vector changes
  by that tab moving to its front and in no other way, and it does not change at all if
  the tab stays where it is, if it already is the head of the MRU vector, or while the
  handler of the selection is suppressed.
\<close>

theorem reorder_bumps_moved_tab_only:
  assumes "consistent p" "currentTabIndex < length (tabs p)" "length (tabs p) < 2 ^ 31"
    "paletteVisibility p = Collapsed"
  shows "mruTabs (stateOf (TabDragCompleted d)) = mruTabs d \<and>
         (\<exists>q. TryMoveTab currentTabIndex suggestedNewTabIndex p = Done q \<and>
              mruTabs q =
                (if currentTabIndex \<noteq> nat (clamp suggestedNewTabIndex 0 (int (length (tabs p)) - 1)) \<and>
                    \<not> rearranging p \<and> \<not> removing p
                 then bumpMRU (tabs p ! currentTabIndex) (mruTabs p) else mruTabs p) \<and>
              (IndexOf (mruTabs p) (tabs p ! currentTabIndex) = Some 0 \<longrightarrow>
                 mruTabs q = mruTabs p))"
proof
  show "mruTabs (stateOf (TabDragCompleted d)) = mruTabs d"
    by (rule TabDragCompleted_mru)
  from TryMoveTab_char [OF assms(1,2,3), of suggestedNewTabIndex] obtain q where
    q: "TryMoveTab currentTabIndex suggestedNewTabIndex p = Done q"
    "paletteVisibility p = Collapsed \<longrightarrow>
       mruTabs q =
         (if currentTabIndex \<noteq> nat (clamp suggestedNewTabIndex 0 (int (length (tabs p)) - 1)) \<and>
             \<not> rearranging p \<and> \<not> removing p
          then bumpMRU (tabs p ! currentTabIndex) (mruTabs p) else mruTabs p)"
    by blast
  have m: "mruTabs q =
         (if currentTabIndex \<noteq> nat (clamp suggestedNewTabIndex 0 (int (length (tabs p)) - 1)) \<and>
             \<not> rearranging p \<and> \<not> removing p
          then bumpMRU (tabs p ! currentTabIndex) (mruTabs p) else mruTabs p)"
    using q(2) assms(4) by simp
  have "IndexOf (mruTabs p) (tabs p ! currentTabIndex) = Some 0 \<longrightarrow> mruTabs q = mruTabs p"
    using m by (simp add: bumpMRU_head)
  with q(1) m show "\<exists>q. TryMoveTab currentTabIndex suggestedNewTabIndex p = Done q \<and>
              mruTabs q =
                (if currentTabIndex \<noteq> nat (clamp suggestedNewTabIndex 0 (int (length (tabs p)) - 1)) \<and>
                    \<not> rearranging p \<and> \<not> removing p
                 then bumpMRU (tabs p ! currentTabIndex) (mruTabs p) else mruTabs p) \<and>
              (IndexOf (mruTabs p) (tabs p ! currentTabIndex) = Some 0 \<longrightarrow>
                 mruTabs q = mruTabs p)"
    by blast
qed

theorem reorder_bumps_moved_tab_only_witness:
  "consistent (examplePage [0, 1] [1, 0] (Some 1)) \<and>
   1 < length (tabs (examplePage [0, 1] [1, 0] (Some 1))) \<and>
   length (tabs (examplePage [0, 1] [1, 0] (Some 1))) < 2 ^ 31 \<and>
   paletteVisibility (examplePage [0, 1] [1, 0] (Some 1)) = Collapsed \<and>
   IndexOf (mruTabs (examplePage [0, 1] [1, 0] (Some 1)))
     (tabs (examplePage [0, 1] [1, 0] (Some 1)) ! 1) = Some 0 \<and>
   (\<exists>q. TryMoveTab 1 0 (examplePage [0, 1] [1, 0] (Some 1)) = Done q \<and> mruTabs q = [1, 0]) \<and>
   mruTabs (stateOf (TabDragCompleted ((examplePage [1, 0] [1, 0] (Some 1))\<lparr>tabs := [0, 1],
      rearranging := True, rearrangeFrom := Some 0, rearrangeTo := Some 1\<rparr>))) = [1, 0]"
proof -
  let ?p = "examplePage [0, 1] [1, 0] (Some 1)"
  let ?d = "(examplePage [1, 0] [1, 0] (Some 1))\<lparr>tabs := [0, 1], rearranging := True,
      rearrangeFrom := Some 0, rearrangeTo := Some 1\<rparr>"
  have h1: "consistent ?p"
    by (auto simp: consistent_def examplePage_simps)
  have h2: "1 < length (tabs ?p)" "length (tabs ?p) < 2 ^ 31" "paletteVisibility ?p = Collapsed"
    by (simp_all add: examplePage_simps)
  have h3: "IndexOf (mruTabs ?p) (tabs ?p ! 1) = Some 0"
    by (simp add: examplePage_simps)
  from reorder_bumps_moved_tab_only [OF h1 h2, of ?d 0] obtain q where
    q: "mruTabs (stateOf (TabDragCompleted ?d)) = mruTabs ?d"
    "TryMoveTab 1 0 ?p = Done q"
    "IndexOf (mruTabs ?p) (tabs ?p ! 1) = Some 0 \<longrightarrow> mruTabs q = mruTabs ?p"
    by blast
  have "mruTabs q = [1, 0]" using q(3) h3 by (simp add: examplePage_simps)
  moreover have "mruTabs (stateOf (TabDragCompleted ?d)) = [1, 0]"
    using q(1) by (simp add: examplePage_simps)
  ultimately show ?thesis using h1 h2 h3 q(2) by blast
qed

theorem move_unfocused_tab_counterexample:
  "mruTabs (examplePage [0, 1] [0, 1] (Some 0)) = [0, 1] \<and>
   mruTabs (stateOf (TryMoveTab 1 0 (examplePage [0, 1] [0, 1] (Some 0)))) = [1, 0]"
proof -
  let ?p = "examplePage [0, 1] [0, 1] (Some 0)"
  have h1: "consistent ?p"
    by (auto simp: consistent_def examplePage_simps)
  have h2: "1 < length (tabs ?p)" "length (tabs ?p) < 2 ^ 31"
    by (simp_all add: examplePage_simps)
  from TryMoveTab_char [OF h1 h2, of 0] obtain q where
    q: "TryMoveTab 1 0 ?p = Done q"
    "paletteVisibility ?p = Collapsed \<longrightarrow>
       mruTabs q =
         (if 1 \<noteq> nat (clamp 0 0 (int (length (tabs ?p)) - 1)) \<and>
             \<not> rearranging ?p \<and> \<not> removing ?p
          then bumpMRU (tabs ?p ! 1) (mruTabs ?p) else mruTabs ?p)"
    by blast
  have "mruTabs q = [1, 0]"
    using q(2) by (simp add: examplePage_simps clamp_def bumpMRU_def)
  then show ?thesis using q(1) by (simp add: examplePage_simps)
qed

lemma wrap_next:
  assumes "0 < n" "i < n" "n < 2 ^ 31"
  shows "nat (to_uint32 (int n + int i + 1) mod int n) = (i + 1 + n) mod n"
    "nat (to_uint32 (int n + int i + - 1) mod int n) = (i + n - 1) mod n"
proof -
  have a: "to_uint32 (int n + int i + 1) = int (i + 1 + n)"
    using assms by (simp add: to_uint32_id)
  have "int n + int i + - 1 = int (i + n - 1)" using assms(1) by simp
  moreover have "0 \<le> int (i + n - 1)" "int (i + n - 1) < 2 ^ 32"
    using assms by simp_all
  ultimately have b: "to_uint32 (int n + int i + - 1) = int (i + n - 1)"
    by (simp only: to_uint32_id)
  show "nat (to_uint32 (int n + int i + 1) mod int n) = (i + 1 + n) mod n"
    unfolding a by (simp only: zmod_int [symmetric] nat_int)
  show "nat (to_uint32 (int n + int i + - 1) mod int n) = (i + n - 1) mod n"
    unfolding b by (simp only: zmod_int [symmetric] nat_int)
qed



lemma SelectTab_commit:
  assumes c: "distinct (tabs p)" "tabItems p = tabs p"
    and j: "j < length (tabs p)" "length (tabs p) < 2 ^ 31" and empty: "dispatcherQueue p = []"
  defines "live \<equiv> startupState p = InStartup \<or>
                   (selectedItem p \<noteq> Some (tabs p ! j) \<and> \<not> rearranging p \<and> \<not> removing p)"
  shows "\<exists>q. thenDo (SelectTab j p) runDispatcher = Done q \<and> frame p q \<and> tabs q = tabs p \<and>
            tabItems q = tabItems p \<and> selectedItem q = Some (tabs p ! j) \<and>
            paletteVisibility q = paletteVisibility p \<and>
            mruTabs q =
              (if live \<and> paletteVisibility p \<noteq> Visible
               then bumpMRU (tabs p ! j) (mruTabs p) else mruTabs p) \<and>
            tabContent q = (if live then [tabs p ! j] else tabContent p) \<and>
            (\<forall>t\<in>set (tabs p).
               focusState (objs q t) =
                 (if live
                  then (if t = tabs p ! j \<and> paletteVisibility p \<noteq> Visible
                        then Programmatic else Unfocused)
                  else focusState (objs p t)))"
proof (cases "startupState p = InStartup")
  case True
  then have live: live by (simp add: live_def)
  define t where "t = tabs p ! j"
  have idx: "IndexOf (tabItems p) t = Some j"
    using c j(1) by (simp add: t_def IndexOf_nth_distinct)
  have ji: "to_int32 (int j) = int j" using j by (simp add: to_int32_id)
  from TabView_SelectedItem_char [of p t] obtain q1 where
    q1: "TabView_SelectedItem t p = Done q1" "frame p q1" "tabs q1 = tabs p"
    "tabItems q1 = tabItems p" "selectedItem q1 = Some t"
    "paletteVisibility q1 = paletteVisibility p"
    "mruTabs q1 =
       (if selectedItem p \<noteq> Some t \<and> \<not> rearranging p \<and> \<not> removing p \<and>
           paletteVisibility p \<noteq> Visible
        then bumpAt (IndexOf (tabItems p) t) p else mruTabs p)"
    by (rule handledE)
  from UpdatedSelectedTab_char [of q1 "int j"] obtain q2 where
    q2: "UpdatedSelectedTab (int j) q1 = Done q2" "frame q1 q2" "tabs q2 = tabs q1"
    "tabItems q2 = tabItems q1" "selectedItem q2 = selectedItem q1"
    "paletteVisibility q2 = paletteVisibility q1"
    "mruTabs q2 =
       (if 0 \<le> int j \<and> paletteVisibility q1 \<noteq> Visible
        then bumpAt (Some (nat (int j))) q1 else mruTabs q1)"
    by (rule handledE)
  define q where "q = q2\<lparr>dispatcherQueue := []\<rparr>"
  have fr: "frame p q2" using q1(2) q2(2) by (rule frame_trans)
  have "dispatcherQueue q2 = []" using fr empty by (simp add: frame_def)
  then have run: "thenDo (SelectTab j p) runDispatcher = Done q"
    using True j(1) q1(1) q2(1) ji
    by (simp add: SelectTab_def runDispatcher_def q_def t_def)
  have frq: "frame p q" using fr empty by (simp add: frame_def q_def)
  have m1: "mruTabs q1 = mruTabs p \<or> mruTabs q1 = bumpMRU t (mruTabs p)"
    using q1(7) idx j(1) by (simp add: bumpAt_def t_def)
  have m2: "mruTabs q =
      (if paletteVisibility p \<noteq> Visible then bumpMRU t (mruTabs q1) else mruTabs q1)"
    using q2(7) q1(3,6) j(1) by (simp add: bumpAt_def q_def t_def)
  have m3: "paletteVisibility p = Visible \<Longrightarrow> mruTabs q1 = mruTabs p"
    using q1(7) by simp
  have mru: "mruTabs q =
      (if paletteVisibility p \<noteq> Visible then bumpMRU t (mruTabs p) else mruTabs p)"
    using m1 m2 m3 by (auto simp: bumpMRU_idem)
  have b: "0 \<le> int j" "nat (int j) < length (tabs q1)"
    using j(1) q1(3) by simp_all
  have f1: "tabContent q = [t]"
    using UpdatedSelectedTab_focus(1) [OF b] q2(1) q1(3) by (simp add: q_def t_def)
  have f2: "focusState (objs q u) =
       (if u = t \<and> paletteVisibility p \<noteq> Visible then Programmatic
        else if u \<in> set (tabs p) then Unfocused else focusState (objs q1 u))" for u
    using UpdatedSelectedTab_focus(2) [OF b, of u] q2(1) q1(3,6) by (simp add: q_def t_def)
  have f3: "\<forall>u\<in>set (tabs p). focusState (objs q u) =
       (if u = t \<and> paletteVisibility p \<noteq> Visible then Programmatic else Unfocused)"
    using f2 by simp
  have rest: "tabs q = tabs p" "tabItems q = tabItems p" "selectedItem q = Some t"
    "paletteVisibility q = paletteVisibility p"
    using q1(3-6) q2(3-6) by (simp_all add: q_def)
  show ?thesis
    using run frq rest mru f1 f3 live unfolding t_def by simp
next
  case False
  define t where "t = tabs p ! j"
  define p0 where "p0 = p\<lparr>dispatcherQueue := []\<rparr>"
  have p0: "frame p p0" "tabs p0 = tabs p" "tabItems p0 = tabItems p"
    "selectedItem p0 = selectedItem p" "paletteVisibility p0 = paletteVisibility p"
    "mruTabs p0 = mruTabs p" "rearranging p0 = rearranging p" "removing p0 = removing p"
    "objs p0 = objs p" "tabContent p0 = tabContent p"
    using empty by (simp_all add: p0_def frame_def)
  have idx: "IndexOf (tabItems p0) t = Some j"
    using c j(1) p0(3) by (simp add: t_def IndexOf_nth_distinct)
  from TabView_SelectedItem_char [of p0 t] obtain q where
    q: "TabView_SelectedItem t p0 = Done q" "frame p0 q" "tabs q = tabs p0"
    "tabItems q = tabItems p0" "selectedItem q = Some t"
    "paletteVisibility q = paletteVisibility p0"
    "mruTabs q =
       (if selectedItem p0 \<noteq> Some t \<and> \<not> rearranging p0 \<and> \<not> removing p0 \<and>
           paletteVisibility p0 \<noteq> Visible
        then bumpAt (IndexOf (tabItems p0) t) p0 else mruTabs p0)"
    by (rule handledE)
  have run: "thenDo (SelectTab j p) runDispatcher = Done q"
    using False j(1) empty q(1)
    by (simp add: SelectTab_def runDispatcher_def SetFocusedTabIndex_def
        SetFocusedTabIndex_resume_def p0_def t_def)
  have frq: "frame p q" using p0(1) q(2) by (rule frame_trans)
  have live: "live \<longleftrightarrow> selectedItem p \<noteq> Some t \<and> \<not> rearranging p \<and> \<not> removing p"
    using False by (simp add: live_def t_def)
  have mru: "mruTabs q =
      (if live \<and> paletteVisibility p \<noteq> Visible then bumpMRU t (mruTabs p) else mruTabs p)"
    using q(7) idx j(1) p0 live by (auto simp: bumpAt_def t_def)
  have rest: "tabs q = tabs p" "tabItems q = tabItems p" "selectedItem q = Some t"
    "paletteVisibility q = paletteVisibility p"
    using q(3-6) p0 by simp_all
  show ?thesis
  proof (cases live)
    case True
    then have l: "selectedItem p0 \<noteq> Some t" "\<not> rearranging p0" "\<not> removing p0"
      using live p0 by simp_all
    have jj: "j < length (tabs p0)" using j(1) p0(2) by simp
    have f1: "tabContent q = [t]"
      using TabView_SelectedItem_focus(1) [OF l idx jj] q(1) p0(2) by (simp add: t_def)
    have f2: "focusState (objs q u) =
       (if u = t \<and> paletteVisibility p \<noteq> Visible then Programmatic
        else if u \<in> set (tabs p) then Unfocused else focusState (objs p0 u))" for u
      using TabView_SelectedItem_focus(2) [OF l idx jj, of u] q(1) p0(2,5) by (simp add: t_def)
    have f3: "\<forall>u\<in>set (tabs p). focusState (objs q u) =
       (if u = t \<and> paletteVisibility p \<noteq> Visible then Programmatic else Unfocused)"
      using f2 by simp
    show ?thesis
      using run frq rest mru f1 f3 True unfolding t_def by simp
  next
    case quiet: False
    then have "selectedItem p0 = Some t \<or> rearranging p0 \<or> removing p0"
      using live p0 by auto
    from TabView_SelectedItem_quiet [OF this] have "objs q = objs p" "tabContent q = tabContent p"
      using q(1) p0 by simp_all
    then show ?thesis
      using run frq rest mru quiet unfolding t_def by simp
  qed
qed


text \<open>
  C6 (amended).  In mode \<open>Disabled\<close>, with \<open>N\<close> tabs of which the one at display index
  \<open>i\<close> is focused and the command palette closed, a request for the next or previous tab
  computes the index \<open>(i + 1 + N) mod N\<close> or \<open>(i - 1 + N) mod N\<close> and asks for the focus
  to go there.  After startup the request itself only starts \<open>SetFocusedTabIndex\<close>, which
  waits for the dispatcher.  Once the dispatcher has run (during startup: at once) the
  tab at that index is the selected one, and the palette is still closed.  It is then
  also the content shown, the one remaining focused tab and the head of the MRU vector,
  if the page is in startup, or if it is another tab than before and no tab is being
  dragged or removed; otherwise content, focus and MRU vector are as they were.
\<close>

theorem select_next_tab_disabled:
  assumes "consistent p" "GetFocusedTabIndex p = Some i" "length (tabs p) < 2 ^ 31"
    "(case customTabSwitcherMode of Some m \<Rightarrow> m | None \<Rightarrow> tabSwitcherMode p) = Disabled"
    "dispatcherQueue p = []" "paletteVisibility p = Collapsed"
  shows "(startupState p \<noteq> InStartup \<longrightarrow>
            SelectNextTab bMoveRight customTabSwitcherMode request p =
              Done (SetFocusedTabIndex (wrappedIndex bMoveRight i (length (tabs p))) p)) \<and>
         (\<exists>q. thenDo (SelectNextTab bMoveRight customTabSwitcherMode request p) runDispatcher =
                Done q \<and>
              tabs q = tabs p \<and>
              GetFocusedTabIndex q = Some (wrappedIndex bMoveRight i (length (tabs p))) \<and>
              paletteVisibility q = Collapsed \<and> dispatcherQueue q = [] \<and>
              (if startupState p = InStartup \<or>
                  (wrappedIndex bMoveRight i (length (tabs p)) \<noteq> i \<and>
                   \<not> rearranging p \<and> \<not> removing p)
               then tabContent q = [tabs p ! wrappedIndex bMoveRight i (length (tabs p))] \<and>
                    (\<forall>t\<in>set (tabs p).
                       focusState (objs q t) =
                         (if t = tabs p ! wrappedIndex bMoveRight i (length (tabs p))
                          then Programmatic else Unfocused)) \<and>
                    mruTabs q =
                      bumpMRU (tabs p ! wrappedIndex bMoveRight i (length (tabs p))) (mruTabs p)
               else tabContent q = tabContent p \<and>
                    (\<forall>t\<in>set (tabs p). focusState (objs q t) = focusState (objs p t)) \<and>
                    mruTabs q = mruTabs p))"
proof -
  define n where "n = length (tabs p)"
  define new where "new = wrappedIndex bMoveRight i n"
  have c: "distinct (tabs p)" "tabItems p = tabs p"
    using assms(1) by (simp_all add: consistent_def)
  have i: "i < n" using GetFocusedTabIndex_less [OF assms(2)] c(2) by (simp add: n_def)
  then have n: "0 < n" "n < 2 ^ 31" using assms(3) by (auto simp: n_def)
  have new: "new < n" using n(1) by (simp add: new_def wrappedIndex_def)
  have idx: "nat (to_uint32 (int n + int i + (if bMoveRight then 1 else - 1)) mod int n) = new"
    using wrap_next [OF n(1) i n(2)] by (simp add: new_def wrappedIndex_def)
  have run: "SelectNextTab bMoveRight customTabSwitcherMode request p = SelectTab new p"
    using assms(2,4) n(1) idx by (simp add: SelectNextTab_def Let_def n_def)
  have first: "startupState p \<noteq> InStartup \<longrightarrow>
      SelectNextTab bMoveRight customTabSwitcherMode request p =
        Done (SetFocusedTabIndex new p)"
    using run new by (simp add: SelectTab_def n_def)
  have sel: "selectedItem p = Some (tabs p ! i)"
  proof (cases "selectedItem p")
    case None
    then show ?thesis using assms(2) by (simp add: GetFocusedTabIndex_def)
  next
    case (Some s)
    then have "IndexOf (tabs p) s = Some i"
      using assms(2) c(2) by (simp add: GetFocusedTabIndex_def)
    from IndexOf_Some_nth [OF this] Some show ?thesis by simp
  qed
  have same: "selectedItem p \<noteq> Some (tabs p ! new) \<longleftrightarrow> new \<noteq> i"
    using sel c(1) i new by (auto simp: nth_eq_iff_index_eq n_def)
  have pal: "paletteVisibility p \<noteq> Visible" using assms(6) by simp
  from SelectTab_commit [OF c new [unfolded n_def] assms(3,5)] obtain q where
    q: "thenDo (SelectTab new p) runDispatcher = Done q" "frame p q" "tabs q = tabs p"
    "tabItems q = tabItems p" "selectedItem q = Some (tabs p ! new)"
    "paletteVisibility q = paletteVisibility p"
    "mruTabs q =
       (if (startupState p = InStartup \<or>
            (selectedItem p \<noteq> Some (tabs p ! new) \<and> \<not> rearranging p \<and> \<not> removing p)) \<and>
           paletteVisibility p \<noteq> Visible
        then bumpMRU (tabs p ! new) (mruTabs p) else mruTabs p)"
    "tabContent q =
       (if startupState p = InStartup \<or>
           (selectedItem p \<noteq> Some (tabs p ! new) \<and> \<not> rearranging p \<and> \<not> removing p)
        then [tabs p ! new] else tabContent p)"
    "\<forall>t\<in>set (tabs p).
       focusState (objs q t) =
         (if startupState p = InStartup \<or>
             (selectedItem p \<noteq> Some (tabs p ! new) \<and> \<not> rearranging p \<and> \<not> removing p)
          then (if t = tabs p ! new \<and> paletteVisibility p \<noteq> Visible
                then Programmatic else Unfocused)
          else focusState (objs p t))"
    by blast
  have "IndexOf (tabs p) (tabs p ! new) = Some new"
    using c(1) new by (intro IndexOf_nth_distinct) (simp_all add: n_def)
  then have foc: "GetFocusedTabIndex q = Some new"
    using q(4,5) c(2) by (simp add: GetFocusedTabIndex_def)
  have que: "dispatcherQueue q = []"
    using q(2) assms(5) by (simp add: frame_def)
  have second: "\<exists>q. thenDo (SelectNextTab bMoveRight customTabSwitcherMode request p)
                runDispatcher = Done q \<and>
              tabs q = tabs p \<and> GetFocusedTabIndex q = Some new \<and>
              paletteVisibility q = Collapsed \<and> dispatcherQueue q = [] \<and>
              (if startupState p = InStartup \<or>
                  (new \<noteq> i \<and> \<not> rearranging p \<and> \<not> removing p)
               then tabContent q = [tabs p ! new] \<and>
                    (\<forall>t\<in>set (tabs p).
                       focusState (objs q t) =
                         (if t = tabs p ! new then Programmatic else Unfocused)) \<and>
                    mruTabs q = bumpMRU (tabs p ! new) (mruTabs p)
               else tabContent q = tabContent p \<and>
                    (\<forall>t\<in>set (tabs p). focusState (objs q t) = focusState (objs p t)) \<and>
                    mruTabs q = mruTabs p)"
  proof (cases "startupState p = InStartup \<or> (new \<noteq> i \<and> \<not> rearranging p \<and> \<not> removing p)")
    case True
    then have l: "startupState p = InStartup \<or>
        (selectedItem p \<noteq> Some (tabs p ! new) \<and> \<not> rearranging p \<and> \<not> removing p)"
      using same by simp
    have "tabContent q = [tabs p ! new]"
      "\<forall>t\<in>set (tabs p).
         focusState (objs q t) = (if t = tabs p ! new then Programmatic else Unfocused)"
      "mruTabs q = bumpMRU (tabs p ! new) (mruTabs p)"
      using q(7,8,9) l pal by simp_all
    then show ?thesis
      unfolding if_P [OF True] using run q(1,3,6) foc que assms(6) by simp
  next
    case False
    then have l: "\<not> (startupState p = InStartup \<or>
        (selectedItem p \<noteq> Some (tabs p ! new) \<and> \<not> rearranging p \<and> \<not> removing p))"
      using same by simp
    have "tabContent q = tabContent p"
      "\<forall>t\<in>set (tabs p). focusState (objs q t) = focusState (objs p t)"
      "mruTabs q = mruTabs p"
      using q(7,8,9) l by simp_all
    then show ?thesis
      unfolding if_not_P [OF False] using run q(1,3,6) foc que assms(6) by simp
  qed
  show ?thesis
    using first second unfolding new_def n_def by (rule conjI)
qed


lemma disabledPage_simps:
  "tabs disabledPage = [0, 1, 2]"
  "mruTabs disabledPage = [2, 1, 0]"
  "tabItems disabledPage = [0, 1, 2]"
  "selectedItem disabledPage = Some 2"
  "rearranging disabledPage = False"
  "removing disabledPage = False"
  "paletteVisibility disabledPage = Collapsed"
  "startupState disabledPage = Initialized"
  "tabSwitcherMode disabledPage = Disabled"
  "dispatcherQueue disabledPage = []"
  "tabContent disabledPage = [2]"
  "focusState (objs disabledPage t) = (if t = 2 then Programmatic else Unfocused)"
  by (simp_all add: disabledPage_def TabBase_Focus_def updTab_def examplePage_simps
      newTerminalTab_def)

theorem select_next_tab_disabled_witness:
  "consistent disabledPage \<and> GetFocusedTabIndex disabledPage = Some 2 \<and>
   length (tabs disabledPage) < 2 ^ 31 \<and> tabSwitcherMode disabledPage = Disabled \<and>
   dispatcherQueue disabledPage = [] \<and> paletteVisibility disabledPage = Collapsed \<and>
   SelectNextTab True None None disabledPage = Done (SetFocusedTabIndex 0 disabledPage) \<and>
   (\<exists>q. thenDo (SelectNextTab True None None disabledPage) runDispatcher = Done q \<and>
        GetFocusedTabIndex q = Some 0 \<and> paletteVisibility q = Collapsed \<and>
        tabContent q = [0] \<and> focusState (objs q 0) = Programmatic \<and>
        focusState (objs q 1) = Unfocused \<and> focusState (objs q 2) = Unfocused \<and>
        mruTabs q = [0, 2, 1]) \<and>
   SelectNextTab False None None disabledPage = Done (SetFocusedTabIndex 1 disabledPage) \<and>
   (\<exists>q. thenDo (SelectNextTab False None None disabledPage) runDispatcher = Done q \<and>
        GetFocusedTabIndex q = Some 1 \<and> paletteVisibility q = Collapsed \<and>
        tabContent q = [1] \<and> focusState (objs q 1) = Programmatic \<and>
        focusState (objs q 0) = Unfocused \<and> focusState (objs q 2) = Unfocused \<and>
        mruTabs q = [1, 2, 0])"
proof -
  let ?p = disabledPage
  have h1: "consistent ?p"
    by (auto simp: consistent_def disabledPage_simps)
  have h2: "GetFocusedTabIndex ?p = Some 2" "length (tabs ?p) < 2 ^ 31"
    by (simp_all add: GetFocusedTabIndex_def disabledPage_simps)
  have h3: "(case None of Some m \<Rightarrow> m | None \<Rightarrow> tabSwitcherMode ?p) = Disabled"
    "dispatcherQueue ?p = []" "paletteVisibility ?p = Collapsed"
    by (simp_all add: disabledPage_simps)
  have h4: "tabSwitcherMode ?p = Disabled" by (simp add: disabledPage_simps)
  have w: "wrappedIndex True 2 (length (tabs ?p)) = 0"
    "wrappedIndex False 2 (length (tabs ?p)) = 1"
    by (simp_all add: wrappedIndex_def disabledPage_simps)
  note a = select_next_tab_disabled [OF h1 h2 h3, of True None, unfolded w]
  note b = select_next_tab_disabled [OF h1 h2 h3, of False None, unfolded w]
  have a1: "SelectNextTab True None None ?p = Done (SetFocusedTabIndex 0 ?p)"
    using a [THEN conjunct1] by (simp add: disabledPage_simps)
  have b1: "SelectNextTab False None None ?p = Done (SetFocusedTabIndex 1 ?p)"
    using b [THEN conjunct1] by (simp add: disabledPage_simps)
  have a2: "\<exists>q. thenDo (SelectNextTab True None None ?p) runDispatcher = Done q \<and>
        GetFocusedTabIndex q = Some 0 \<and> paletteVisibility q = Collapsed \<and>
        tabContent q = [0] \<and> focusState (objs q 0) = Programmatic \<and>
        focusState (objs q 1) = Unfocused \<and> focusState (objs q 2) = Unfocused \<and>
        mruTabs q = [0, 2, 1]"
    using a [THEN conjunct2] by (auto simp: disabledPage_simps bumpMRU_def)
  have b2: "\<exists>q. thenDo (SelectNextTab False None None ?p) runDispatcher = Done q \<and>
        GetFocusedTabIndex q = Some 1 \<and> paletteVisibility q = Collapsed \<and>
        tabContent q = [1] \<and> focusState (objs q 1) = Programmatic \<and>
        focusState (objs q 0) = Unfocused \<and> focusState (objs q 2) = Unfocused \<and>
        mruTabs q = [1, 2, 0]"
    using b [THEN conjunct2] by (auto simp: disabledPage_simps bumpMRU_def)
  show ?thesis
    using h1 h2 h3(2,3) h4 a1 a2 b1 b2 by (simp only: simp_thms)
qed

theorem select_next_tab_deferred_counterexample:
  "GetFocusedTab disabledPage = Inr (Some 2) \<and>
   SelectNextTab True None None disabledPage = Done (disabledPage\<lparr>dispatcherQueue := [0]\<rparr>) \<and>
   GetFocusedTab (disabledPage\<lparr>dispatcherQueue := [0]\<rparr>) = Inr (Some 2) \<and>
   focusState (objs (disabledPage\<lparr>dispatcherQueue := [0]\<rparr>) 2) = Programmatic \<and>
   focusState (objs (disabledPage\<lparr>dispatcherQueue := [0]\<rparr>) 0) = Unfocused \<and>
   thenDo (SelectNextTab True None None (disabledPage\<lparr>rearranging := True\<rparr>)) runDispatcher =
     Done (disabledPage\<lparr>rearranging := True, selectedItem := Some 0\<rparr>) \<and>
   focusState (objs (disabledPage\<lparr>rearranging := True, selectedItem := Some 0\<rparr>) 2) =
     Programmatic \<and>
   focusState (objs (disabledPage\<lparr>rearranging := True, selectedItem := Some 0\<rparr>) 0) =
     Unfocused \<and>
   tabContent (disabledPage\<lparr>rearranging := True, selectedItem := Some 0\<rparr>) = [2] \<and>
   mruTabs (disabledPage\<lparr>rearranging := True, selectedItem := Some 0\<rparr>) = [2, 1, 0]"
proof -
  have i: "GetFocusedTabIndex disabledPage = Some 2"
    "GetFocusedTabIndex (disabledPage\<lparr>rearranging := True\<rparr>) = Some 2"
    "GetFocusedTabIndex (disabledPage\<lparr>dispatcherQueue := [0]\<rparr>) = Some 2"
    by (simp_all add: GetFocusedTabIndex_def disabledPage_simps)
  have n: "nat (to_uint32 (int 3 + int 2 + 1) mod int 3) = 0"
    by (simp add: to_uint32_def)
  have a: "SelectNextTab True None None disabledPage =
      Done (disabledPage\<lparr>dispatcherQueue := [0]\<rparr>)"
    using i(1) n
    by (simp add: SelectNextTab_def Let_def SelectTab_def SetFocusedTabIndex_def
        disabledPage_simps)
  have b: "thenDo (SelectNextTab True None None (disabledPage\<lparr>rearranging := True\<rparr>))
      runDispatcher = Done (disabledPage\<lparr>rearranging := True, selectedItem := Some 0\<rparr>)"
    using i(2) n
    by (simp add: SelectNextTab_def Let_def SelectTab_def SetFocusedTabIndex_def
        runDispatcher_def SetFocusedTabIndex_resume_def TabView_SelectedItem_def
        OnTabSelectionChanged_def disabledPage_simps)
  have c: "GetFocusedTab disabledPage = Inr (Some 2)"
    "GetFocusedTab (disabledPage\<lparr>dispatcherQueue := [0]\<rparr>) = Inr (Some 2)"
    using i(1,3) by (simp_all add: GetFocusedTab_def disabledPage_simps)
  show ?thesis
    using a b c by (simp add: disabledPage_simps)
qed


















text \<open>
  C8.  The profile \<open>g\<close> of the focused terminal tab is not among the profiles of the
  settings any more.  Then duplicating the focused tab, and splitting its pane in
  duplicate mode, end normally and leave the page exactly as it was: no tab and no pane
  is added, and the exception of the profile lookup does not leave the operation.
\<close>

theorem duplicate_missing_profile_noop:
  assumes "GetFocusedTabImpl p = Inr (Some t)" "focusedProfile (objs p t) = Some g"
    "g \<notin> set (profiles p)"
  shows "DuplicateFocusedTab split newTabImpl term debugTap p = Done p \<and>
         DuplicateTab split newTabImpl term debugTap t p = Done p \<and>
         SplitPane splitPane splitType Duplicate argsGuid autoSplit canSplit p = Done p"
  using assms
  by (simp add: DuplicateFocusedTab_def DuplicateTab_def SplitPane_def
      CreateWithProfileByID_def)

theorem duplicate_missing_profile_noop_witness:
  "GetFocusedTabImpl orphanedPage = Inr (Some 0) \<and>
   focusedProfile (objs orphanedPage 0) = Some 0 \<and> 0 \<notin> set (profiles orphanedPage) \<and>
   DuplicateFocusedTab id 1 () False orphanedPage = Done orphanedPage \<and>
   SplitPane (\<lambda>s g. id) Vertical Duplicate 1 Vertical True orphanedPage = Done orphanedPage \<and>
   tabs (stateOf (DuplicateFocusedTab id 1 () False (examplePage [0] [0] (Some 0)))) = [0, 1]"
proof -
  have h: "GetFocusedTabImpl orphanedPage = Inr (Some 0)"
    "focusedProfile (objs orphanedPage 0) = Some 0" "0 \<notin> set (profiles orphanedPage)"
    by (simp_all add: GetFocusedTabImpl_def GetFocusedTab_def GetFocusedTabIndex_def
        GetTerminalTabImpl_def orphanedPage_def examplePage_simps newTerminalTab_def)
  have c: "consistent (examplePage [0] [0] (Some 0))"
    "1 \<notin> set (tabs (examplePage [0] [0] (Some 0)))"
    by (simp_all add: consistent_def examplePage_simps)
  from CreateNewTabFromSettings_char [OF c, of id 0 "()" False] obtain q where
    q: "CreateNewTabFromSettings id 1 0 () False (examplePage [0] [0] (Some 0)) = Done q"
    "tabs q = tabs (examplePage [0] [0] (Some 0)) @ [1]"
    by blast
  have "DuplicateFocusedTab id 1 () False (examplePage [0] [0] (Some 0)) = Done q"
    using q(1)
    by (simp add: DuplicateFocusedTab_def DuplicateTab_def CreateWithProfileByID_def
        GetFocusedTabImpl_def GetFocusedTab_def GetFocusedTabIndex_def GetTerminalTabImpl_def
        examplePage_simps newTerminalTab_def)
  then have d: "tabs (stateOf (DuplicateFocusedTab id 1 () False (examplePage [0] [0] (Some 0))))
      = [0, 1]"
    using q(2) by (simp add: examplePage_simps)
  from duplicate_missing_profile_noop [OF h, of id 1 "()" False "\<lambda>s g. id" Vertical 1 Vertical
      True]
  show ?thesis using h d by simp
qed

text \<open>
  C2.  On a page without tabs, as the constructor leaves it, \<open>SelectTab\<close> changes
  nothing and answers \<open>False\<close>, and a request for the next or previous tab in an
  MRU or in-order mode only makes the (empty) tab switcher visible.  In mode
  \<open>Disabled\<close> the request divides by the number of tabs, which is zero.
\<close>

theorem select_next_tab_empty_collection:
  "SelectNextTab bMoveRight None request (initialPage ob Disabled ps) =
     Threw DivideByZero (initialPage ob Disabled ps) \<and>
   SelectNextTab bMoveRight (Some Disabled) request (initialPage ob mode ps) =
     Threw DivideByZero (initialPage ob mode ps) \<and>
   SelectNextTab bMoveRight (Some InOrder) None (initialPage ob mode ps) =
     Done ((initialPage ob mode ps)\<lparr>paletteVisibility := Visible\<rparr>) \<and>
   SelectTab tabIndex (initialPage ob mode ps) = Done (initialPage ob mode ps) \<and>
   \<not> SelectTab_returns tabIndex (initialPage ob mode ps)"
  by (simp add: SelectNextTab_def SelectTab_def SelectTab_returns_def Let_def
      CommandPalette_Visibility_def initialPage_def)

end
